theory Spec2Isabelle
  imports Main "HOL-Library.Word"
begin

unbundle bit_operations_syntax

section \<open>Common types\<close>

text \<open>
  The target of the sources is the 32-bit EB40A board (\<^verbatim>\<open>rts/gcc-eb40a\<close>): a C
  \<^verbatim>\<open>int\<close> and an \<^verbatim>\<open>Address\<close> are 32-bit words, \<^verbatim>\<open>long long\<close> is a 64-bit
  word. Signed comparisons read a word with \<open>sint\<close>. Memory is a function from
  addresses to bytes.
\<close>

type_synonym cint = "32 word"
type_synonym jlong = "64 word"
type_synonym Address = "32 word"
type_synonym memory = "Address \<Rightarrow> 8 word"

text \<open>
  Every way the VM stops instead of returning: \<^verbatim>\<open>exit(code)\<close>,
  \<^verbatim>\<open>stopVM(code)\<close> and \<^verbatim>\<open>fatalVMError(msg)\<close> (which prints \<open>msg\<close> and calls
  \<^verbatim>\<open>stopVM(-1)\<close>). \<open>ArrayIndexOutOfBounds\<close> is a read or write outside a
  fixed-size C array, which the model reports instead of leaving it unspecified.
\<close>

datatype vm_error =
    Exit int
  | StopVM int
  | FatalVMError string
  | ArrayIndexOutOfBounds

section \<open>Pending switch-event requests (rts/gcc-eb40a/eb40a-io.c)\<close>

text \<open>
  \<^verbatim>\<open>struct switchRequest { int eventNumber; int mask; struct switchRequest *next; }\<close>.
  The singly linked list headed by \<^verbatim>\<open>switchRequests\<close> is the list of its records in
  link order; \<^verbatim>\<open>NULL\<close> is the empty list.
\<close>

record SwitchRequest =
  eventNumber :: cint
  mask_sr :: cint

text \<open>
  \<^verbatim>\<open>storeSwitchRequest\<close>. \<open>malloc_ok\<close> says whether \<^verbatim>\<open>malloc\<close> returned a
  record; \<open>RESULT_EXCEPTION\<close> is the constant \<^verbatim>\<open>ChannelConstants_RESULT_EXCEPTION\<close>,
  whose value is not part of the sources. The \<^verbatim>\<open>while (current->next != NULL)\<close> loop
  walks to the last record.
\<close>

definition storeSwitchRequest ::
  "cint \<Rightarrow> bool \<Rightarrow> cint \<Rightarrow> SwitchRequest list \<Rightarrow> cint \<times> SwitchRequest list" where
  "storeSwitchRequest RESULT_EXCEPTION malloc_ok switchMask switchRequests =
     (if \<not> malloc_ok then (RESULT_EXCEPTION, switchRequests)
      else if switchRequests = []
        then (1, [\<lparr>eventNumber = 1, mask_sr = switchMask\<rparr>])
        else (let current = last switchRequests;
                  n = eventNumber current + 1
              in (n, switchRequests @ [\<lparr>eventNumber = n, mask_sr = switchMask\<rparr>])))"

text \<open>
  The loop of \<^verbatim>\<open>getEventPrim\<close>: \<open>previous\<close> holds the records already passed (in
  order), \<open>current\<close> the rest of the list. \<open>sw_is_pressed\<close> is the hardware's
  answer for a mask. The result is \<open>res\<close> and the list after the call.
\<close>

fun getEventPrim_loop ::
  "(cint \<Rightarrow> bool) \<Rightarrow> bool \<Rightarrow> SwitchRequest list \<Rightarrow> SwitchRequest list
     \<Rightarrow> cint \<times> SwitchRequest list" where
  "getEventPrim_loop sw_is_pressed removeEventFlag previous [] = (0, previous)"
| "getEventPrim_loop sw_is_pressed removeEventFlag previous (current # next) =
     (if sw_is_pressed (mask_sr current)
      then (eventNumber current,
            if removeEventFlag then previous @ next else previous @ current # next)
      else getEventPrim_loop sw_is_pressed removeEventFlag (previous @ [current]) next)"

definition getEventPrim ::
  "(cint \<Rightarrow> bool) \<Rightarrow> bool \<Rightarrow> SwitchRequest list \<Rightarrow> cint \<times> SwitchRequest list" where
  "getEventPrim sw_is_pressed removeEventFlag switchRequests =
     (if switchRequests = [] then (0, switchRequests)
      else getEventPrim_loop sw_is_pressed removeEventFlag [] switchRequests)"

definition getEvent :: "(cint \<Rightarrow> bool) \<Rightarrow> SwitchRequest list \<Rightarrow> cint \<times> SwitchRequest list" where
  "getEvent sw_is_pressed switchRequests = getEventPrim sw_is_pressed True switchRequests"

definition checkForEvents :: "(cint \<Rightarrow> bool) \<Rightarrow> SwitchRequest list \<Rightarrow> cint \<times> SwitchRequest list" where
  "checkForEvents sw_is_pressed switchRequests = getEventPrim sw_is_pressed False switchRequests"

text \<open>The \<^verbatim>\<open>ChannelConstants_SW_READ\<close> case of \<^verbatim>\<open>ioExecute\<close>; \<open>i1\<close> is the mask.\<close>

definition ioExecute_SW_READ ::
  "cint \<Rightarrow> (cint \<Rightarrow> bool) \<Rightarrow> bool \<Rightarrow> cint \<Rightarrow> SwitchRequest list \<Rightarrow> cint \<times> SwitchRequest list" where
  "ioExecute_SW_READ RESULT_EXCEPTION sw_is_pressed malloc_ok i1 switchRequests =
     (if sw_is_pressed i1 then (0, switchRequests)
      else storeSwitchRequest RESULT_EXCEPTION malloc_ok i1 switchRequests)"

text \<open>The \<^verbatim>\<open>ChannelConstants_GLOBAL_GETEVENT\<close> case of \<^verbatim>\<open>ioExecute\<close>.\<close>

definition ioExecute_GLOBAL_GETEVENT ::
  "(cint \<Rightarrow> bool) \<Rightarrow> SwitchRequest list \<Rightarrow> cint \<times> SwitchRequest list" where
  "ioExecute_GLOBAL_GETEVENT sw_is_pressed switchRequests = getEvent sw_is_pressed switchRequests"

text \<open>
  The \<^verbatim>\<open>ChannelConstants_GLOBAL_WAITFOREVENT\<close> case of \<^verbatim>\<open>ioExecute\<close>.
  \<^verbatim>\<open>millisecondsToWait = i1; millisecondsToWait = (millisecondsToWait << 32) |
  ((unsigned long long)i2 & 0xFFFFFFFF)\<close>: both conversions of an \<^verbatim>\<open>int\<close> sign-extend.
\<close>

definition millisecondsToWait :: "cint \<Rightarrow> cint \<Rightarrow> jlong" where
  "millisecondsToWait i1 i2 =
     push_bit 32 (scast i1 :: jlong) OR ((scast i2 :: jlong) AND 0xFFFFFFFF)"

definition maxValue :: jlong where
  "maxValue = 0x7FFFFFFFFFFFFFFF"

text \<open>
  \<^verbatim>\<open>target = getMilliseconds() + millisecondsToWait; if (target <= 0) target = maxValue;\<close>
  with the 64-bit addition wrapping and the comparison signed.
\<close>

definition waitForEvent_target :: "jlong \<Rightarrow> cint \<Rightarrow> cint \<Rightarrow> jlong" where
  "waitForEvent_target now i1 i2 =
     (let target = now + millisecondsToWait i1 i2
      in if sint target \<le> 0 then maxValue else target)"

text \<open>
  The polling loop \<^verbatim>\<open>while (1) { if (checkForEvents()) break; if (getMilliseconds() >
  target) break; }\<close>. The hardware and the clock are the environment: at the \<open>k\<close>-th
  pass of the loop \<open>sw k\<close> is the state of the switches and \<open>clock k\<close> the value
  \<^verbatim>\<open>getMilliseconds()\<close> would return. The loop may run forever, which is the value
  \<open>None\<close>; when it leaves at pass \<open>k\<close> it yields \<open>k\<close> and the request list.
\<close>

partial_function (option) waitForEvent_loop ::
  "(nat \<Rightarrow> cint \<Rightarrow> bool) \<Rightarrow> (nat \<Rightarrow> jlong) \<Rightarrow> jlong \<Rightarrow> SwitchRequest list \<Rightarrow> nat
     \<Rightarrow> (nat \<times> SwitchRequest list) option" where
  "waitForEvent_loop sw clock target switchRequests k =
     (case checkForEvents (sw k) switchRequests of
        (res, switchRequests') \<Rightarrow>
          if res \<noteq> 0 then Some (k, switchRequests')
          else if sint target < sint (clock k) then Some (k, switchRequests')
          else waitForEvent_loop sw clock target switchRequests' (Suc k))"

text \<open>
  The whole case: \<open>now\<close> is the first clock reading. The result is \<open>res = 0\<close>, the
  pass at which the loop was left and the request list, or \<open>None\<close> when the loop never
  ends.
\<close>

definition ioExecute_GLOBAL_WAITFOREVENT ::
  "(nat \<Rightarrow> cint \<Rightarrow> bool) \<Rightarrow> jlong \<Rightarrow> (nat \<Rightarrow> jlong) \<Rightarrow> cint \<Rightarrow> cint \<Rightarrow> SwitchRequest list
     \<Rightarrow> (cint \<times> nat \<times> SwitchRequest list) option" where
  "ioExecute_GLOBAL_WAITFOREVENT sw now clock i1 i2 switchRequests =
     (case waitForEvent_loop sw clock (waitForEvent_target now i1 i2) switchRequests 0 of
        None \<Rightarrow> None
      | Some (k, switchRequests') \<Rightarrow> Some (0, k, switchRequests'))"

text \<open>
  The deadline as the specification words it: the current time plus the requested
  milliseconds, saturating to the maximum value when the sum overflows.
\<close>

definition spec_deadline :: "jlong \<Rightarrow> jlong \<Rightarrow> jlong" where
  "spec_deadline now ms =
     (if sint now + sint ms < - (2 ^ 63) \<or> 2 ^ 63 \<le> sint now + sint ms
      then maxValue else now + ms)"

text \<open>Concrete environments used in the instances below.\<close>

definition no_switch_pressed :: "cint \<Rightarrow> bool" where
  "no_switch_pressed m = False"

definition switch_one_pressed :: "cint \<Rightarrow> bool" where
  "switch_one_pressed m = (m = 1)"

definition switch_two_pressed :: "cint \<Rightarrow> bool" where
  "switch_two_pressed m = (m = 2)"

definition never_pressed :: "nat \<Rightarrow> cint \<Rightarrow> bool" where
  "never_pressed k m = False"

definition ticking_clock :: "jlong \<Rightarrow> nat \<Rightarrow> jlong" where
  "ticking_clock now k = now + of_nat k"

text \<open>
  The condition under which the polling loop is left at pass \<open>k\<close>: the event check
  succeeds or the clock has passed the target.
\<close>

definition wait_leaves ::
  "(nat \<Rightarrow> cint \<Rightarrow> bool) \<Rightarrow> (nat \<Rightarrow> jlong) \<Rightarrow> jlong \<Rightarrow> SwitchRequest list \<Rightarrow> nat \<Rightarrow> bool" where
  "wait_leaves sw clock target q k =
     (fst (checkForEvents (sw k) q) \<noteq> 0 \<or> sint target < sint (clock k))"

section \<open>The buffer registry (vm/squawk.c, vm/globals.h)\<close>

definition MAX_BUFFERS :: nat where
  "MAX_BUFFERS = 10"

text \<open>
  The two fields of \<^verbatim>\<open>Globals\<close> that make the registry:
  \<^verbatim>\<open>Address Buffers[MAX_BUFFERS]; int BufferCount;\<close>. The registered buffers are
  the first \<open>BufferCount\<close> entries of the array.
\<close>

record Globals =
  Buffers :: "Address list"
  BufferCount :: nat

definition registered :: "Globals \<Rightarrow> Address list" where
  "registered g = take (BufferCount g) (Buffers g)"

text \<open>
  \<^verbatim>\<open>newBuffer\<close>. \<open>pageSize\<close> is \<^verbatim>\<open>getSystemPageSize()\<close> and \<open>valloc\<close> the host
  allocator, which answers 0 (\<^verbatim>\<open>null\<close>) when it fails. \<^verbatim>\<open>assume\<close> is empty unless
  the VM is built with \<^verbatim>\<open>ASSUME\<close> (vm/util.h), and the contents of the buffer are
  not part of the model.
\<close>

definition newBuffer ::
  "cint \<Rightarrow> (cint \<Rightarrow> Address) \<Rightarrow> cint \<Rightarrow> bool \<Rightarrow> Globals \<Rightarrow> vm_error + Address \<times> Globals" where
  "newBuffer pageSize valloc sz fatalIfFail g =
     (let actualSize = (sz + (pageSize - 1)) AND NOT (pageSize - 1);
          buffer = valloc actualSize
      in if buffer = 0
         then (if fatalIfFail then Inl (StopVM 1) else Inr (0, g))
         else if MAX_BUFFERS \<le> BufferCount g
         then Inl (FatalVMError ''exceeded MAX_BUFFERS allocations'')
         else Inr (buffer, g\<lparr>Buffers := (Buffers g)[BufferCount g := buffer],
                              BufferCount := BufferCount g + 1\<rparr>))"

text \<open>
  The loop of \<^verbatim>\<open>freeBuffer\<close>: \<^verbatim>\<open>while (i != BufferCount)\<close> with \<open>i\<close> counting up
  from 0, so the test is \<open>i < BufferCount\<close>. An entry equal to \<open>buffer\<close> is given
  back to the host; any other entry is copied down to index \<open>insert\<close> (here \<open>insert_i\<close>).
\<close>

function freeBuffer_loop ::
  "Address \<Rightarrow> nat \<Rightarrow> Address list \<Rightarrow> nat \<Rightarrow> nat \<Rightarrow> Address list \<times> nat" where
  "freeBuffer_loop buffer count bufs i insert_i =
     (if i < count
      then (if bufs ! i = buffer
            then freeBuffer_loop buffer count bufs (i + 1) insert_i
            else freeBuffer_loop buffer count (bufs[insert_i := bufs ! i]) (i + 1) (insert_i + 1))
      else (bufs, insert_i))"
  by pat_completeness auto
termination
  by (relation "measure (\<lambda>(buffer, count, bufs, i, insert_i). count - i)") auto

declare freeBuffer_loop.simps [simp del]

definition freeBuffer :: "Address \<Rightarrow> Globals \<Rightarrow> vm_error + Globals" where
  "freeBuffer buffer g =
     (case freeBuffer_loop buffer (BufferCount g) (Buffers g) 0 0 of
        (bufs, insert_i) \<Rightarrow>
          if BufferCount g \<noteq> insert_i + 1
          then Inl (FatalVMError ''buffer not in Buffers exactly once'')
          else Inr (g\<lparr>Buffers := bufs, BufferCount := insert_i\<rparr>))"

text \<open>A registry used in the instances below, and a host allocator for it.\<close>

definition three_buffers :: Globals where
  "three_buffers =
     \<lparr>Buffers = [0x1000, 0x2000, 0x3000, 0, 0, 0, 0, 0, 0, 0], BufferCount = 3\<rparr>"

definition valloc_4000 :: "cint \<Rightarrow> Address" where
  "valloc_4000 n = 0x4000"

section \<open>The copy-bytes channel operation (vm/cio.c, vm/util.h)\<close>

text \<open>
  What the operation does to its surroundings, in order: the \<^verbatim>\<open>mprotect\<close> call of
  \<^verbatim>\<open>toggleMemoryProtection\<close> (start, length, read-only or not), the \<^verbatim>\<open>memmove\<close>
  (destination, source, length) and the \<^verbatim>\<open>checkPostWrite\<close> check (address, size).
\<close>

datatype cio_event =
    Mprotect Address cint bool
  | Memmove Address Address cint
  | CheckPostWrite Address cint

record cio_state =
  cio_mem :: memory
  cio_trace :: "cio_event list"

text \<open>
  \<^verbatim>\<open>toggleMemoryProtection(start, end, readonly)\<close>: \<^verbatim>\<open>len = Address_diff(end, start)\<close>
  and one \<^verbatim>\<open>mprotect\<close> call, whose failure is only logged.
\<close>

definition toggleMemoryProtection :: "Address \<Rightarrow> Address \<Rightarrow> bool \<Rightarrow> cio_state \<Rightarrow> cio_state" where
  "toggleMemoryProtection start endp readonly s =
     (let len = endp - start
      in s\<lparr>cio_trace := cio_trace s @ [Mprotect start len readonly]\<rparr>)"

text \<open>\<^verbatim>\<open>memmove(dst, src, n)\<close>: the \<open>n\<close> bytes at \<open>src\<close>, as they were, land at \<open>dst\<close>.\<close>

definition memmove :: "Address \<Rightarrow> Address \<Rightarrow> cint \<Rightarrow> cio_state \<Rightarrow> cio_state" where
  "memmove dst src n s =
     s\<lparr>cio_mem := (\<lambda>a. if a - dst < n then cio_mem s (src + (a - dst)) else cio_mem s a),
       cio_trace := cio_trace s @ [Memmove dst src n]\<rparr>"

definition checkPostWrite :: "Address \<Rightarrow> cint \<Rightarrow> cio_state \<Rightarrow> cio_state" where
  "checkPostWrite ea sz s = s\<lparr>cio_trace := cio_trace s @ [CheckPostWrite ea sz]\<rparr>"

text \<open>
  The \<^verbatim>\<open>ChannelConstants_INTERNAL_COPYBYTES\<close> case of \<^verbatim>\<open>cioExecute\<close>.
  \<open>nvmStart\<close> and \<open>nvmEnd\<close> are \<^verbatim>\<open>java_lang_GC_nvmStart\<close> and
  \<^verbatim>\<open>java_lang_GC_nvmEnd\<close>; the destination is NVM when the caller passes \<open>i4 = 1\<close>.
\<close>

definition cioExecute_INTERNAL_COPYBYTES ::
  "Address \<Rightarrow> Address \<Rightarrow> cint \<Rightarrow> cint \<Rightarrow> cint \<Rightarrow> cint \<Rightarrow> Address \<Rightarrow> Address
     \<Rightarrow> cio_state \<Rightarrow> cio_state" where
  "cioExecute_INTERNAL_COPYBYTES nvmStart nvmEnd i1 i2 i3 i4 o1 o2 s =
     (let lth = i1; srcoffset = i2; dstoffset = i3; nvmDst = (i4 = 1); src = o1; dst = o2;
          s1 = (if nvmDst then toggleMemoryProtection nvmStart nvmEnd False s else s);
          s2 = memmove (dst + dstoffset) (src + srcoffset) lth s1;
          s3 = checkPostWrite (dst + dstoffset) lth s2
      in if nvmDst then toggleMemoryProtection nvmStart nvmEnd True s3 else s3)"

definition is_Mprotect :: "cio_event \<Rightarrow> bool" where
  "is_Mprotect e = (case e of Mprotect start len readonly \<Rightarrow> True | _ \<Rightarrow> False)"

definition twice_registered :: Globals where
  "twice_registered =
     \<lparr>Buffers = [0x1000, 0x2000, 0x1000, 0, 0, 0, 0, 0, 0, 0], BufferCount = 3\<rparr>"

definition empty_cio_state :: cio_state where
  "empty_cio_state = \<lparr>cio_mem = (\<lambda>a. 0), cio_trace = []\<rparr>"

text \<open>
  The destination of a copy is NVM, as the claim words it: its address lies in the
  region from \<^verbatim>\<open>java_lang_GC_nvmStart\<close> up to, not including,
  \<^verbatim>\<open>java_lang_GC_nvmEnd\<close>. The code never computes this.
\<close>

definition in_nvm :: "Address \<Rightarrow> Address \<Rightarrow> Address \<Rightarrow> bool" where
  "in_nvm nvmStart nvmEnd a = (nvmStart \<le> a \<and> a < nvmEnd)"

text \<open>A state whose memory holds the byte 0xAB at address 0x5000, for the instances.\<close>

definition source_byte_state :: cio_state where
  "source_byte_state =
     \<lparr>cio_mem = (\<lambda>a. if a = 0x5000 then 0xAB else 0), cio_trace = []\<rparr>"

section \<open>The debug breakpoint protocol (vm/debug.c)\<close>

definition DB_MAX_BPS :: nat where
  "DB_MAX_BPS = 20"

text \<open>
  The globals of the debugger: \<^verbatim>\<open>int db_bp_set; int db_debug_enabled;
  Db_breakpoint db_bp_table[DB_MAX_BPS]; ByteAddress db_current_ips[DB_MAX_BPS + 1];\<close>
  (a \<^verbatim>\<open>Db_breakpoint\<close> holds one address, 0 if not set), and the messages sent so far.
  What the data commands print is not modelled beyond the fact that a reply was sent.
\<close>

datatype db_message = Ready | BpHit nat | DataResult | MemoryResult | Exiting

record db_state =
  db_bp_set :: bool
  db_debug_enabled :: bool
  db_bp_table :: "Address list"
  db_current_ips :: "Address list"
  db_sent :: "db_message list"

text \<open>
  A line of input, as the \<^verbatim>\<open>sscanf\<close> calls read it: the seven characters before the
  first colon, the command letter, the sub-command letter, the sub-sub-command letter of
  a data command, and the two numbers (breakpoint number and address of a break command,
  address and count of a data command).
\<close>

record db_line =
  l_hdr :: string
  l_cmd :: char
  l_subcmd :: char
  l_subsubcmd :: char
  l_i1 :: cint
  l_i2 :: cint

text \<open>
  \<^verbatim>\<open>db_regenerate_current_ips\<close>. The first loop copies \<open>db_ip + 1\<close> of every set
  entry to the front of \<open>db_current_ips\<close>, counting them in \<open>j\<close>; the second zeroes
  the entries from \<open>j\<close> up to \<open>DB_MAX_BPS - 1\<close>. The pair is \<open>(j, db_current_ips)\<close>.
\<close>

definition db_regenerate_fill :: "Address list \<Rightarrow> nat \<Rightarrow> nat \<times> Address list \<Rightarrow> nat \<times> Address list" where
  "db_regenerate_fill table i st =
     (case st of (j, ips) \<Rightarrow>
        if table ! i \<noteq> 0 then (j + 1, ips[j := table ! i + 1]) else (j, ips))"

definition db_regenerate_current_ips :: "db_state \<Rightarrow> db_state" where
  "db_regenerate_current_ips s =
     (case fold (db_regenerate_fill (db_bp_table s)) [0..<DB_MAX_BPS] (0, db_current_ips s) of
        (j, ips) \<Rightarrow>
          s\<lparr>db_current_ips := fold (\<lambda>i ips. ips[i := 0]) [j..<DB_MAX_BPS] ips\<rparr>)"

text \<open>
  The loop of the clear command:
  \<^verbatim>\<open>for (i = 0; i < DB_MAX_BPS; i++) { db_bp_set = FALSE; if (db_bp_table[i].db_ip != 0)
  { db_bp_set = TRUE; break; } }\<close>, over the indices still to visit.
\<close>

fun db_clear_scan :: "bool \<Rightarrow> Address list \<Rightarrow> nat list \<Rightarrow> bool" where
  "db_clear_scan bp_set table [] = bp_set"
| "db_clear_scan bp_set table (i # is) =
     (if table ! i \<noteq> 0 then True else db_clear_scan False table is)"

text \<open>
  \<^verbatim>\<open>db_process_break_cmd\<close>. \<open>OPC_EXTEND\<close> and \<open>OPC_EXTEND0\<close> are constants of
  \<^verbatim>\<open>rom.h\<close>, which is not part of the sources. \<^verbatim>\<open>char op = *((ByteAddress)addr)\<close>
  is the byte at the address, compared as an unsigned value as on the ARM target. Every
  \<^verbatim>\<open>exit(-1)\<close> is the error \<open>Exit (-1)\<close>.
\<close>

definition db_process_break_cmd ::
  "int \<Rightarrow> int \<Rightarrow> memory \<Rightarrow> db_line \<Rightarrow> db_state \<Rightarrow> vm_error + db_state" where
  "db_process_break_cmd OPC_EXTEND OPC_EXTEND0 mem buf s =
     (let subcmd = l_subcmd buf; bpnum = l_i1 buf; addr = l_i2 buf
      in if sint bpnum < 0 \<or> int DB_MAX_BPS \<le> sint bpnum then Inl (Exit (- 1))
         else if subcmd = CHR ''S'' then
           (let op = uint (mem addr);
                addr = (if op = OPC_EXTEND then addr + 2
                        else if op = OPC_EXTEND0 then addr + 1
                        else addr)
            in Inr (db_regenerate_current_ips
                 (s\<lparr>db_bp_table := (db_bp_table s)[nat (sint bpnum) := addr],
                    db_bp_set := True\<rparr>)))
         else if subcmd = CHR ''C'' then
           (let table = (db_bp_table s)[nat (sint bpnum) := 0]
            in Inr (db_regenerate_current_ips
                 (s\<lparr>db_bp_table := table,
                    db_bp_set := db_clear_scan (db_bp_set s) table [0..<DB_MAX_BPS]\<rparr>)))
         else Inl (Exit (- 1)))"

text \<open>
  \<^verbatim>\<open>db_process_data_cmd\<close>: the set command and unknown letters leave with
  \<^verbatim>\<open>exit(-1)\<close>; the two get commands send their reply.
\<close>

definition db_process_data_cmd :: "db_line \<Rightarrow> db_state \<Rightarrow> vm_error + db_state" where
  "db_process_data_cmd buf s =
     (let subcmd = l_subcmd buf; subsubcmd = l_subsubcmd buf
      in if subcmd = CHR ''S'' then Inl (Exit (- 1))
         else if subcmd = CHR ''G'' then
           (if subsubcmd = CHR ''S'' then Inr (s\<lparr>db_sent := db_sent s @ [DataResult]\<rparr>)
            else if subsubcmd = CHR ''M'' then Inr (s\<lparr>db_sent := db_sent s @ [MemoryResult]\<rparr>)
            else Inl (Exit (- 1)))
         else Inl (Exit (- 1)))"

text \<open>
  \<^verbatim>\<open>db_process_client_commands\<close>, over the lines still to come on the input. The
  loop ends at a continue command, with the rest of the input; when \<^verbatim>\<open>db_input\<close> has
  no line to give, the code prints \<^verbatim>\<open>No data read\<close> and exits.
\<close>

fun db_process_client_commands ::
  "int \<Rightarrow> int \<Rightarrow> memory \<Rightarrow> db_state \<Rightarrow> db_line list \<Rightarrow> vm_error + db_state \<times> db_line list" where
  "db_process_client_commands OPC_EXTEND OPC_EXTEND0 mem s [] = Inl (Exit (- 1))"
| "db_process_client_commands OPC_EXTEND OPC_EXTEND0 mem s (buf # input) =
     (if l_hdr buf \<noteq> ''*DEBUG*'' then Inl (Exit (- 1))
      else if l_cmd buf = CHR ''B'' then
        (case db_process_break_cmd OPC_EXTEND OPC_EXTEND0 mem buf s of
           Inl e \<Rightarrow> Inl e
         | Inr s' \<Rightarrow> db_process_client_commands OPC_EXTEND OPC_EXTEND0 mem s' input)
      else if l_cmd buf = CHR ''C'' then Inr (s, input)
      else if l_cmd buf = CHR ''D'' then
        (case db_process_data_cmd buf s of
           Inl e \<Rightarrow> Inl e
         | Inr s' \<Rightarrow> db_process_client_commands OPC_EXTEND OPC_EXTEND0 mem s' input)
      else Inl (Exit (- 1)))"

text \<open>
  \<^verbatim>\<open>db_prepare\<close>: when debugging is enabled both arrays are zeroed, entry
  \<open>DB_MAX_BPS\<close> of \<open>db_current_ips\<close> included, the ready message is sent and the
  command loop runs before the first instruction.
\<close>

definition db_prepare ::
  "int \<Rightarrow> int \<Rightarrow> memory \<Rightarrow> db_state \<Rightarrow> db_line list \<Rightarrow> vm_error + db_state \<times> db_line list" where
  "db_prepare OPC_EXTEND OPC_EXTEND0 mem s input =
     (if db_debug_enabled s then
        (let table = fold (\<lambda>i t. t[i := 0]) [0..<DB_MAX_BPS] (db_bp_table s);
             ips = fold (\<lambda>i t. t[i := 0]) [0..<DB_MAX_BPS] (db_current_ips s);
             ips = ips[DB_MAX_BPS := 0];
             s' = s\<lparr>db_bp_table := table, db_current_ips := ips, db_bp_set := False,
                     db_sent := db_sent s @ [Ready]\<rparr>
         in db_process_client_commands OPC_EXTEND OPC_EXTEND0 mem s' input)
      else Inr (s, input))"

text \<open>
  The inner loop of \<^verbatim>\<open>db_checkBreak\<close>: the first index \<open>j\<close> of the table, among
  those still to visit, whose entry is \<open>actual_ip - 1\<close>.
\<close>

fun db_find_hit :: "Address list \<Rightarrow> Address \<Rightarrow> nat list \<Rightarrow> nat option" where
  "db_find_hit table bp [] = None"
| "db_find_hit table bp (j # js) =
     (if table ! j = bp then Some j else db_find_hit table bp js)"

text \<open>
  The scan \<^verbatim>\<open>while (bp_ip = db_current_ips[i++])\<close> of \<^verbatim>\<open>db_checkBreak\<close>, from
  index \<open>i\<close>. The array has \<open>DB_MAX_BPS + 1\<close> entries: reading at a greater index
  is the error \<open>ArrayIndexOutOfBounds\<close>. On a hit the breakpoint number is sent and
  the command loop runs, which may change the table and the array under the scan; the
  scan then goes on with the next index.
\<close>

function db_checkBreak_scan ::
  "int \<Rightarrow> int \<Rightarrow> memory \<Rightarrow> Address \<Rightarrow> nat \<Rightarrow> db_state \<Rightarrow> db_line list
     \<Rightarrow> vm_error + db_state \<times> db_line list" where
  "db_checkBreak_scan OPC_EXTEND OPC_EXTEND0 mem actual_ip i s input =
     (if DB_MAX_BPS < i then Inl ArrayIndexOutOfBounds
      else if db_current_ips s ! i = 0 then Inr (s, input)
      else if db_current_ips s ! i = actual_ip then
        (case db_find_hit (db_bp_table s) (actual_ip - 1) [0..<DB_MAX_BPS] of
           None \<Rightarrow> db_checkBreak_scan OPC_EXTEND OPC_EXTEND0 mem actual_ip (Suc i) s input
         | Some j \<Rightarrow>
             (case db_process_client_commands OPC_EXTEND OPC_EXTEND0 mem
                     (s\<lparr>db_sent := db_sent s @ [BpHit j]\<rparr>) input of
                Inl e \<Rightarrow> Inl e
              | Inr (s', input') \<Rightarrow>
                  db_checkBreak_scan OPC_EXTEND OPC_EXTEND0 mem actual_ip (Suc i) s' input'))
      else db_checkBreak_scan OPC_EXTEND OPC_EXTEND0 mem actual_ip (Suc i) s input)"
  by pat_completeness auto
termination
  by (relation "measure (\<lambda>(OPC_EXTEND, OPC_EXTEND0, mem, actual_ip, i, s, input).
        Suc DB_MAX_BPS - i)") auto

declare db_checkBreak_scan.simps [simp del]

definition db_checkBreak ::
  "int \<Rightarrow> int \<Rightarrow> memory \<Rightarrow> Address \<Rightarrow> db_state \<Rightarrow> db_line list
     \<Rightarrow> vm_error + db_state \<times> db_line list" where
  "db_checkBreak OPC_EXTEND OPC_EXTEND0 mem actual_ip s input =
     (if db_debug_enabled s then
        (if db_bp_set s
         then db_checkBreak_scan OPC_EXTEND OPC_EXTEND0 mem actual_ip 0 s input
         else Inr (s, input))
      else Inr (s, input))"

text \<open>
  The fast-lookup array as the specification derives it from the table: the addresses
  of the set entries, each plus one, in table order, followed by zeroes up to
  \<open>DB_MAX_BPS\<close> entries.
\<close>

definition deriveFastLookup :: "Address list \<Rightarrow> Address list" where
  "deriveFastLookup table =
     map (\<lambda>a. a + 1) (filter (\<lambda>a. a \<noteq> 0) table)
       @ replicate (DB_MAX_BPS - length (filter (\<lambda>a. a \<noteq> 0) table)) 0"

text \<open>
  The state of the debugger's globals when the program starts (C zero-initialises
  them; \<open>db_debug_enabled\<close> starts as \<open>TRUE\<close>).
\<close>

definition db_initial :: db_state where
  "db_initial =
     \<lparr>db_bp_set = False, db_debug_enabled = True,
      db_bp_table = replicate DB_MAX_BPS 0,
      db_current_ips = replicate (DB_MAX_BPS + 1) 0,
      db_sent = []\<rparr>"

text \<open>The two arrays have their declared sizes.\<close>

definition db_wf :: "db_state \<Rightarrow> bool" where
  "db_wf s = (length (db_bp_table s) = DB_MAX_BPS \<and> length (db_current_ips s) = DB_MAX_BPS + 1)"

text \<open>
  The fast-lookup array agrees with the table: it is the derived array followed by the
  zero of entry \<open>DB_MAX_BPS\<close>.
\<close>

definition db_consistent :: "db_state \<Rightarrow> bool" where
  "db_consistent s =
     (db_wf s \<and> db_current_ips s = deriveFastLookup (db_bp_table s) @ [0])"

text \<open>
  Lines, a memory, a session and the state it leads to, used in the instances below
  (with 100 for \<open>OPC_EXTEND\<close> and 101 for \<open>OPC_EXTEND0\<close>).
\<close>

definition break_line :: "char \<Rightarrow> cint \<Rightarrow> cint \<Rightarrow> db_line" where
  "break_line c n a =
     \<lparr>l_hdr = ''*DEBUG*'', l_cmd = CHR ''B'', l_subcmd = c, l_subsubcmd = CHR '' '',
      l_i1 = n, l_i2 = a\<rparr>"

definition continue_line :: db_line where
  "continue_line =
     \<lparr>l_hdr = ''*DEBUG*'', l_cmd = CHR ''C'', l_subcmd = CHR '' '', l_subsubcmd = CHR '' '',
      l_i1 = 0, l_i2 = 0\<rparr>"

definition sample_memory :: memory where
  "sample_memory a = (if a = 0x100 then 100 else if a = 0x200 then 101 else 0)"

definition sample_session :: "db_line list" where
  "sample_session =
     [break_line CHR ''S'' 0 0x100, break_line CHR ''S'' 3 0x200, break_line CHR ''S'' 5 0x300,
      break_line CHR ''C'' 0 0, continue_line]"

definition sample_state :: db_state where
  "sample_state =
     \<lparr>db_bp_set = True, db_debug_enabled = True,
      db_bp_table = [0, 0, 0, 0x201, 0, 0x300] @ replicate 14 0,
      db_current_ips = [0x202, 0x301] @ replicate 19 0,
      db_sent = [Ready]\<rparr>"

section \<open>The instruction decoder (vm/trace.c)\<close>

text \<open>
  The opcode constants that \<^verbatim>\<open>decodeInstruction\<close> uses. They are defined in
  \<^verbatim>\<open>rom.h\<close>, which is not part of the sources, so they are parameters of the
  decoder.
\<close>

record opcodes =
  OPC_WIDE_M1 :: int
  OPC_WIDE_0 :: int
  OPC_WIDE_1 :: int
  OPC_WIDE_SHORT :: int
  OPC_WIDE_INT :: int
  OPC_ESCAPE :: int
  OPC_ESCAPE_WIDE_M1 :: int
  OPC_ESCAPE_WIDE_0 :: int
  OPC_ESCAPE_WIDE_1 :: int
  OPC_ESCAPE_WIDE_SHORT :: int
  OPC_ESCAPE_WIDE_INT :: int
  OPC_CONST_BYTE :: int
  OPC_CONST_SHORT :: int
  OPC_CONST_CHAR :: int
  OPC_CONST_INT :: int
  OPC_CONST_LONG :: int
  OPC_CONST_FLOAT :: int
  OPC_CONST_DOUBLE :: int
  OPC_FIRST_PARM_BYTECODE :: int
  OPC_PARM_BYTECODE_COUNT :: int
  OPC_FIRST_ESCAPE_PARM_BYTECODE :: int
  OPC_ESCAPE_PARM_BYTECODE_COUNT :: int

text \<open>
  The labels of the outer \<^verbatim>\<open>switch (opcode)\<close>, in source order. C requires the
  labels of one switch to be distinct.
\<close>

definition case_labels :: "opcodes \<Rightarrow> int list" where
  "case_labels ops =
     [OPC_WIDE_M1 ops, OPC_WIDE_0 ops, OPC_WIDE_1 ops, OPC_WIDE_SHORT ops, OPC_WIDE_INT ops,
      OPC_ESCAPE ops, OPC_ESCAPE_WIDE_M1 ops, OPC_ESCAPE_WIDE_0 ops, OPC_ESCAPE_WIDE_1 ops,
      OPC_ESCAPE_WIDE_SHORT ops, OPC_ESCAPE_WIDE_INT ops, OPC_CONST_BYTE ops,
      OPC_CONST_SHORT ops, OPC_CONST_CHAR ops, OPC_CONST_INT ops, OPC_CONST_LONG ops]"

text \<open>
  \<^verbatim>\<open>DecodedInstruction\<close>. The union \<^verbatim>\<open>operand\<close> holds an \<^verbatim>\<open>int\<close> (member
  \<^verbatim>\<open>i\<close>) or a \<^verbatim>\<open>jlong\<close> (member \<^verbatim>\<open>l\<close>), or has not been written.
\<close>

datatype operand = operand_unset | operand_i cint | operand_l jlong

record DecodedInstruction =
  tag :: int
  prefix :: int
  opcode :: int
  operand :: operand

text \<open>
  Modelled from the spec: the fetch macros \<^verbatim>\<open>fetchUByte\<close>, \<^verbatim>\<open>fetchByte\<close>,
  \<^verbatim>\<open>fetchShort\<close>, \<^verbatim>\<open>fetchUShort\<close>, \<^verbatim>\<open>fetchInt\<close> and \<^verbatim>\<open>fetchLong\<close>
  (vm/bytecodes.c) are not part of the sources. Each reads the bytes at \<open>ip\<close> and
  advances \<open>ip\<close> past them. \<^verbatim>\<open>fetchUByte\<close> fetches one unsigned byte.
\<close>

definition fetchUByte :: "memory \<Rightarrow> Address \<Rightarrow> int \<times> Address" where
  "fetchUByte mem ip = (uint (mem ip), ip + 1)"

text \<open>Modelled from the spec: \<^verbatim>\<open>fetchByte\<close> fetches one signed byte.\<close>

definition fetchByte :: "memory \<Rightarrow> Address \<Rightarrow> int \<times> Address" where
  "fetchByte mem ip = (sint (mem ip), ip + 1)"

text \<open>
  Modelled from the spec: the value of a sequence of bytes. The order of the bytes of a
  value is the platform's (\<^verbatim>\<open>PLATFORM_BIG_ENDIAN\<close> of vm/platform.h), here
  \<open>big_endian\<close>: most significant byte first, or last.
\<close>

definition bytes_value :: "bool \<Rightarrow> 8 word list \<Rightarrow> 'a::len word" where
  "bytes_value big_endian bs =
     foldl (\<lambda>acc b. push_bit 8 acc OR ucast b) 0 (if big_endian then bs else rev bs)"

text \<open>Modelled from the spec: \<^verbatim>\<open>fetchShort\<close> reads a 2-byte signed value.\<close>

definition fetchShort :: "bool \<Rightarrow> memory \<Rightarrow> Address \<Rightarrow> cint \<times> Address" where
  "fetchShort big_endian mem ip =
     (scast (bytes_value big_endian [mem ip, mem (ip + 1)] :: 16 word), ip + 2)"

text \<open>Modelled from the spec: \<^verbatim>\<open>fetchUShort\<close> reads a 2-byte unsigned value.\<close>

definition fetchUShort :: "bool \<Rightarrow> memory \<Rightarrow> Address \<Rightarrow> cint \<times> Address" where
  "fetchUShort big_endian mem ip =
     (ucast (bytes_value big_endian [mem ip, mem (ip + 1)] :: 16 word), ip + 2)"

text \<open>Modelled from the spec: \<^verbatim>\<open>fetchInt\<close> reads a 4-byte signed value.\<close>

definition fetchInt :: "bool \<Rightarrow> memory \<Rightarrow> Address \<Rightarrow> cint \<times> Address" where
  "fetchInt big_endian mem ip =
     (bytes_value big_endian [mem ip, mem (ip + 1), mem (ip + 2), mem (ip + 3)], ip + 4)"

text \<open>Modelled from the spec: \<^verbatim>\<open>fetchLong\<close> reads an 8-byte value.\<close>

definition fetchLong :: "bool \<Rightarrow> memory \<Rightarrow> Address \<Rightarrow> jlong \<times> Address" where
  "fetchLong big_endian mem ip =
     (bytes_value big_endian
        [mem ip, mem (ip + 1), mem (ip + 2), mem (ip + 3),
         mem (ip + 4), mem (ip + 5), mem (ip + 6), mem (ip + 7)], ip + 8)"

text \<open>
  The inner \<^verbatim>\<open>switch (eopcode)\<close> of the \<^verbatim>\<open>OPC_ESCAPE\<close> case. The two float
  cases are compiled only when \<^verbatim>\<open>java_lang_VM_fcmpl\<close> is defined, here \<open>floats\<close>.
  \<open>instruction\<close> already has \<open>opcode = eopcode\<close>.
\<close>

definition decodeEscape ::
  "opcodes \<Rightarrow> bool \<Rightarrow> bool \<Rightarrow> memory \<Rightarrow> int \<Rightarrow> int \<Rightarrow> DecodedInstruction \<Rightarrow> Address
     \<Rightarrow> DecodedInstruction \<times> Address" where
  "decodeEscape ops big_endian floats mem opc eopcode instruction ip =
     (if floats \<and> eopcode = OPC_CONST_FLOAT ops then
        (case fetchInt big_endian mem ip of (fparm, ip) \<Rightarrow>
           (instruction\<lparr>tag := 3, operand := operand_i fparm\<rparr>, ip))
      else if floats \<and> eopcode = OPC_CONST_DOUBLE ops then
        (case fetchLong big_endian mem ip of (flparm, ip) \<Rightarrow>
           (instruction\<lparr>tag := 4, operand := operand_l flparm\<rparr>, ip))
      else if OPC_FIRST_ESCAPE_PARM_BYTECODE ops \<le> eopcode
              \<and> eopcode < OPC_FIRST_ESCAPE_PARM_BYTECODE ops + OPC_ESCAPE_PARM_BYTECODE_COUNT ops
      then
        (case fetchUByte mem ip of (b, ip) \<Rightarrow>
           (instruction\<lparr>prefix := opc, operand := operand_i (of_int b)\<rparr>, ip))
      else (instruction\<lparr>prefix := opc, tag := 0\<rparr>, ip))"

text \<open>
  \<^verbatim>\<open>decodeInstruction\<close>: the decoded instruction and the instruction pointer after
  it, one branch for each case of \<^verbatim>\<open>switch (opcode)\<close> in source order. \<open>opc\<close> is
  the local \<^verbatim>\<open>opcode\<close>. \<^verbatim>\<open>assume\<close> is empty unless the VM is built with
  \<^verbatim>\<open>ASSUME\<close>.
\<close>

definition decodeInstruction ::
  "opcodes \<Rightarrow> bool \<Rightarrow> bool \<Rightarrow> memory \<Rightarrow> Address \<Rightarrow> DecodedInstruction \<times> Address" where
  "decodeInstruction ops big_endian floats mem traceIP =
     (case fetchUByte mem traceIP of (opc, ip) \<Rightarrow>
      let instruction = \<lparr>tag = 1, prefix = - 1, opcode = - 1, operand = operand_unset\<rparr>
      in if opc = OPC_WIDE_M1 ops then
           (case fetchUByte mem ip of (b1, ip) \<Rightarrow>
            case fetchUByte mem ip of (b2, ip) \<Rightarrow>
              (instruction\<lparr>prefix := opc, opcode := b1,
                            operand := operand_i (0xFFFFFF00 OR of_int b2)\<rparr>, ip))
         else if opc = OPC_WIDE_0 ops then
           (case fetchUByte mem ip of (b1, ip) \<Rightarrow>
            case fetchUByte mem ip of (b2, ip) \<Rightarrow>
              (instruction\<lparr>prefix := opc, opcode := b1,
                            operand := operand_i (of_int b2)\<rparr>, ip))
         else if opc = OPC_WIDE_1 ops then
           (case fetchUByte mem ip of (b1, ip) \<Rightarrow>
            case fetchUByte mem ip of (b2, ip) \<Rightarrow>
              (instruction\<lparr>prefix := opc, opcode := b1,
                            operand := operand_i (0x100 OR of_int b2)\<rparr>, ip))
         else if opc = OPC_WIDE_SHORT ops then
           (case fetchShort big_endian mem ip of (fparm, ip) \<Rightarrow>
            case fetchUByte mem ip of (b, ip) \<Rightarrow>
              (instruction\<lparr>prefix := opc, opcode := b, operand := operand_i fparm\<rparr>, ip))
         else if opc = OPC_WIDE_INT ops then
           (case fetchInt big_endian mem ip of (fparm, ip) \<Rightarrow>
            case fetchUByte mem ip of (b, ip) \<Rightarrow>
              (instruction\<lparr>prefix := opc, opcode := b, operand := operand_i fparm\<rparr>, ip))
         else if opc = OPC_ESCAPE ops then
           (case fetchUByte mem ip of (b, ip) \<Rightarrow>
              decodeEscape ops big_endian floats mem opc (b + 256)
                (instruction\<lparr>opcode := b + 256\<rparr>) ip)
         else if opc = OPC_ESCAPE_WIDE_M1 ops then
           (case fetchUByte mem ip of (b1, ip) \<Rightarrow>
            case fetchUByte mem ip of (b2, ip) \<Rightarrow>
              (instruction\<lparr>prefix := opc, opcode := b1 + 256,
                            operand := operand_i (0xFFFFFF00 OR of_int b2)\<rparr>, ip))
         else if opc = OPC_ESCAPE_WIDE_0 ops then
           (case fetchUByte mem ip of (b1, ip) \<Rightarrow>
            case fetchUByte mem ip of (b2, ip) \<Rightarrow>
              (instruction\<lparr>prefix := opc, opcode := b1 + 256,
                            operand := operand_i (of_int b2)\<rparr>, ip))
         else if opc = OPC_ESCAPE_WIDE_1 ops then
           (case fetchUByte mem ip of (b1, ip) \<Rightarrow>
            case fetchUByte mem ip of (b2, ip) \<Rightarrow>
              (instruction\<lparr>prefix := opc, opcode := b1 + 256,
                            operand := operand_i (0x100 OR of_int b2)\<rparr>, ip))
         else if opc = OPC_ESCAPE_WIDE_SHORT ops then
           (case fetchShort big_endian mem ip of (fparm, ip) \<Rightarrow>
            case fetchUByte mem ip of (b, ip) \<Rightarrow>
              (instruction\<lparr>prefix := opc, opcode := b + 256, operand := operand_i fparm\<rparr>, ip))
         else if opc = OPC_ESCAPE_WIDE_INT ops then
           (case fetchInt big_endian mem ip of (fparm, ip) \<Rightarrow>
            case fetchUByte mem ip of (b, ip) \<Rightarrow>
              (instruction\<lparr>prefix := opc, opcode := b + 256, operand := operand_i fparm\<rparr>, ip))
         else if opc = OPC_CONST_BYTE ops then
           (case fetchByte mem ip of (b, ip) \<Rightarrow>
              (instruction\<lparr>opcode := opc, operand := operand_i (of_int b)\<rparr>, ip))
         else if opc = OPC_CONST_SHORT ops then
           (case fetchShort big_endian mem ip of (fparm, ip) \<Rightarrow>
              (instruction\<lparr>opcode := opc, operand := operand_i fparm\<rparr>, ip))
         else if opc = OPC_CONST_CHAR ops then
           (case fetchUShort big_endian mem ip of (fparm, ip) \<Rightarrow>
              (instruction\<lparr>opcode := opc, operand := operand_i fparm\<rparr>, ip))
         else if opc = OPC_CONST_INT ops then
           (case fetchInt big_endian mem ip of (fparm, ip) \<Rightarrow>
              (instruction\<lparr>opcode := opc, operand := operand_i fparm\<rparr>, ip))
         else if opc = OPC_CONST_LONG ops then
           (case fetchLong big_endian mem ip of (flparm, ip) \<Rightarrow>
              (instruction\<lparr>tag := 2, opcode := opc, operand := operand_l flparm\<rparr>, ip))
         else if OPC_FIRST_PARM_BYTECODE ops \<le> opc
                 \<and> opc < OPC_FIRST_PARM_BYTECODE ops + OPC_PARM_BYTECODE_COUNT ops then
           (case fetchByte mem ip of (b, ip) \<Rightarrow>
              (instruction\<lparr>opcode := opc, operand := operand_i (of_int b)\<rparr>, ip))
         else (instruction\<lparr>opcode := opc, tag := 0\<rparr>, ip))"

text \<open>
  An opcode table and two memories used in the instance below. The values stand in
  for those of \<^verbatim>\<open>rom.h\<close>; the first memory holds the bytes
  \<open>WIDE_M1, 0x21, 0x05\<close> at address 0x40, the second the bytes
  \<open>ESCAPE_WIDE_SHORT, 0xFF, 0xFE, 0x21\<close>.
\<close>

definition sample_opcodes :: opcodes where
  "sample_opcodes =
     \<lparr>OPC_WIDE_M1 = 240, OPC_WIDE_0 = 241, OPC_WIDE_1 = 242, OPC_WIDE_SHORT = 243,
      OPC_WIDE_INT = 244, OPC_ESCAPE = 245, OPC_ESCAPE_WIDE_M1 = 246, OPC_ESCAPE_WIDE_0 = 247,
      OPC_ESCAPE_WIDE_1 = 248, OPC_ESCAPE_WIDE_SHORT = 249, OPC_ESCAPE_WIDE_INT = 250,
      OPC_CONST_BYTE = 17, OPC_CONST_SHORT = 18, OPC_CONST_CHAR = 19, OPC_CONST_INT = 20,
      OPC_CONST_LONG = 21, OPC_CONST_FLOAT = 256, OPC_CONST_DOUBLE = 257,
      OPC_FIRST_PARM_BYTECODE = 200, OPC_PARM_BYTECODE_COUNT = 30,
      OPC_FIRST_ESCAPE_PARM_BYTECODE = 300, OPC_ESCAPE_PARM_BYTECODE_COUNT = 10\<rparr>"

definition wide_m1_memory :: memory where
  "wide_m1_memory a =
     (if a = 0x40 then 240 else if a = 0x41 then 0x21 else if a = 0x42 then 0x05 else 0)"

definition wide_short_memory :: memory where
  "wide_short_memory a =
     (if a = 0x40 then 249 else if a = 0x41 then 0xFF else if a = 0x42 then 0xFE
      else if a = 0x43 then 0x21 else 0)"

section \<open>Properties of the switch-event queue\<close>

lemma getEventPrim_loop_result:
  "fst (getEventPrim_loop sw rm previous current) =
     (case find (\<lambda>r. sw (mask_sr r)) current of None \<Rightarrow> 0 | Some r \<Rightarrow> eventNumber r)"
  by (induction current arbitrary: previous) auto

lemma getEventPrim_loop_keep:
  "snd (getEventPrim_loop sw False previous current) = previous @ current"
  by (induction current arbitrary: previous) auto

lemma getEventPrim_loop_remove:
  "snd (getEventPrim_loop sw True previous current) =
     previous @ takeWhile (\<lambda>r. \<not> sw (mask_sr r)) current
              @ tl (dropWhile (\<lambda>r. \<not> sw (mask_sr r)) current)"
  by (induction current arbitrary: previous) auto

lemma checkForEvents_keep: "snd (checkForEvents sw q) = q"
  by (simp add: checkForEvents_def getEventPrim_def getEventPrim_loop_keep)

lemma checkForEvents_result:
  "fst (checkForEvents sw q) = (case find (\<lambda>r. sw (mask_sr r)) q of None \<Rightarrow> 0 | Some r \<Rightarrow> eventNumber r)"
  by (simp add: checkForEvents_def getEventPrim_def getEventPrim_loop_result)


text \<open>
  Claim C3. For every pending queue and every state of the switches, the event check
  returns the sequence number of the first record, in queue order, whose mask is
  asserted, or 0 when there is none; the consuming check removes exactly that record
  and keeps the others in their order; the non-consuming check leaves the queue as it
  was.
\<close>

theorem getEventPrim_fifo:
  "fst (getEventPrim sw rm q) =
      (case find (\<lambda>r. sw (mask_sr r)) q of None \<Rightarrow> 0 | Some r \<Rightarrow> eventNumber r)
   \<and> getEvent sw q =
      (case find (\<lambda>r. sw (mask_sr r)) q of None \<Rightarrow> 0 | Some r \<Rightarrow> eventNumber r,
       takeWhile (\<lambda>r. \<not> sw (mask_sr r)) q @ tl (dropWhile (\<lambda>r. \<not> sw (mask_sr r)) q))
   \<and> checkForEvents sw q =
      (case find (\<lambda>r. sw (mask_sr r)) q of None \<Rightarrow> 0 | Some r \<Rightarrow> eventNumber r, q)"
proof -
  have r: "fst (getEventPrim sw b q) =
      (case find (\<lambda>r. sw (mask_sr r)) q of None \<Rightarrow> 0 | Some r \<Rightarrow> eventNumber r)" for b
    by (simp add: getEventPrim_def getEventPrim_loop_result)
  have c: "snd (getEventPrim sw True q) =
      takeWhile (\<lambda>r. \<not> sw (mask_sr r)) q @ tl (dropWhile (\<lambda>r. \<not> sw (mask_sr r)) q)"
    by (simp add: getEventPrim_def getEventPrim_loop_remove)
  have k: "snd (getEventPrim sw False q) = q"
    by (simp add: getEventPrim_def getEventPrim_loop_keep)
  show ?thesis
    using r [of rm] r [of True] r [of False] c k
    by (simp add: getEvent_def checkForEvents_def prod_eq_iff)
qed

text \<open>
  The example of the specification: requests with masks 1, 2 and 4 are numbered 1, 2
  and 3; when the switch of mask 2 is pressed, the consuming check returns 2 and leaves
  the requests 1 and 3, and the non-consuming check returns 2 and leaves all three.
\<close>

lemma getEventPrim_example:
  "getEvent switch_two_pressed
      [\<lparr>eventNumber = 1, mask_sr = 1\<rparr>, \<lparr>eventNumber = 2, mask_sr = 2\<rparr>,
       \<lparr>eventNumber = 3, mask_sr = 4\<rparr>] =
      (2, [\<lparr>eventNumber = 1, mask_sr = 1\<rparr>, \<lparr>eventNumber = 3, mask_sr = 4\<rparr>])
   \<and> checkForEvents switch_two_pressed
      [\<lparr>eventNumber = 1, mask_sr = 1\<rparr>, \<lparr>eventNumber = 2, mask_sr = 2\<rparr>,
       \<lparr>eventNumber = 3, mask_sr = 4\<rparr>] =
      (2, [\<lparr>eventNumber = 1, mask_sr = 1\<rparr>, \<lparr>eventNumber = 2, mask_sr = 2\<rparr>,
           \<lparr>eventNumber = 3, mask_sr = 4\<rparr>])"
  by (simp add: getEvent_def checkForEvents_def getEventPrim_def switch_two_pressed_def)

text \<open>
  Claim C2, as amended. A read-switch request for an asserted switch returns 0 and
  leaves the queue as it was. A request for a switch that is not asserted, when the
  record is allocated, appends one record to the tail and returns its sequence number,
  which is one more than the sequence number of the last queued record (1 when the
  queue is empty). That number is the queue length plus one exactly when the queue is
  empty or the sequence number of its last record equals the queue length; in
  particular it is so when the queued records are numbered 1, 2, ... in order.
\<close>

theorem sw_read_amended:
  "(sw i1 \<longrightarrow> ioExecute_SW_READ exc sw ok i1 q = (0, q))
   \<and> (\<not> sw i1 \<longrightarrow>
        ioExecute_SW_READ exc sw True i1 q =
          (if q = [] then 1 else eventNumber (last q) + 1,
           q @ [\<lparr>eventNumber = (if q = [] then 1 else eventNumber (last q) + 1),
                 mask_sr = i1\<rparr>]))
   \<and> (\<not> sw i1 \<and> map eventNumber q = map of_nat [1..<Suc (length q)] \<longrightarrow>
        fst (ioExecute_SW_READ exc sw True i1 q) = of_nat (length q) + 1)
   \<and> (\<not> sw i1 \<longrightarrow>
        (fst (ioExecute_SW_READ exc sw True i1 q) = of_nat (length q) + 1) =
        (q = [] \<or> eventNumber (last q) = of_nat (length q)))"
proof -
  have r: "ioExecute_SW_READ exc sw True i1 q =
          (if q = [] then 1 else eventNumber (last q) + 1,
           q @ [\<lparr>eventNumber = (if q = [] then 1 else eventNumber (last q) + 1),
                 mask_sr = i1\<rparr>])" if "\<not> sw i1"
    using that by (simp add: ioExecute_SW_READ_def storeSwitchRequest_def Let_def)
  have c1: "sw i1 \<longrightarrow> ioExecute_SW_READ exc sw ok i1 q = (0, q)"
    by (simp add: ioExecute_SW_READ_def)
  have c2: "\<not> sw i1 \<longrightarrow>
        ioExecute_SW_READ exc sw True i1 q =
          (if q = [] then 1 else eventNumber (last q) + 1,
           q @ [\<lparr>eventNumber = (if q = [] then 1 else eventNumber (last q) + 1),
                 mask_sr = i1\<rparr>])"
    using r by blast
  have f: "fst (ioExecute_SW_READ exc sw True i1 q) =
           (if q = [] then 1 else eventNumber (last q) + 1)" if "\<not> sw i1"
    using r [OF that] by simp
  have c4: "\<not> sw i1 \<longrightarrow>
        (fst (ioExecute_SW_READ exc sw True i1 q) = of_nat (length q) + 1) =
        (q = [] \<or> eventNumber (last q) = of_nat (length q))"
  proof
    assume n: "\<not> sw i1"
    show "(fst (ioExecute_SW_READ exc sw True i1 q) = of_nat (length q) + 1) =
        (q = [] \<or> eventNumber (last q) = of_nat (length q))"
      unfolding f [OF n] by (cases "q = []") simp_all
  qed
  have c3: "\<not> sw i1 \<and> map eventNumber q = map of_nat [1..<Suc (length q)] \<longrightarrow>
        fst (ioExecute_SW_READ exc sw True i1 q) = of_nat (length q) + 1"
  proof
    assume a: "\<not> sw i1 \<and> map eventNumber q = map of_nat [1..<Suc (length q)]"
    then have n: "\<not> sw i1" by simp
    show "fst (ioExecute_SW_READ exc sw True i1 q) = of_nat (length q) + 1"
    proof (cases "q = []")
      case True
      then show ?thesis unfolding f [OF n] by simp
    next
      case False
      then have "eventNumber (last q) = last (map eventNumber q)"
        by (simp add: last_map)
      also have "\<dots> = of_nat (length q)"
        using a False by (simp add: last_map del: upt_Suc)
      finally show ?thesis
        unfolding f [OF n] using False by simp
    qed
  qed
  show ?thesis
    by (rule conjI [OF c1 conjI [OF c2 conjI [OF c3 c4]]])
qed

text \<open>
  An instance: with switch 1 pressed, a request for mask 1 returns 0; a request for
  mask 2 on the queue holding records 1 and 2 appends record 3, the queue length plus
  one; on the queue holding records 5 and 2 the request is numbered 3 as well, since the
  last record's number is the queue length; on the queue holding records 2 and 3 it is
  not the queue length plus one.
\<close>

theorem sw_read_amended_witness:
  "ioExecute_SW_READ (-2) switch_one_pressed True 1
      [\<lparr>eventNumber = 1, mask_sr = 4\<rparr>] = (0, [\<lparr>eventNumber = 1, mask_sr = 4\<rparr>])
   \<and> ioExecute_SW_READ (-2) switch_one_pressed True 2
      [\<lparr>eventNumber = 1, mask_sr = 4\<rparr>, \<lparr>eventNumber = 2, mask_sr = 8\<rparr>] =
        (3, [\<lparr>eventNumber = 1, mask_sr = 4\<rparr>, \<lparr>eventNumber = 2, mask_sr = 8\<rparr>,
             \<lparr>eventNumber = 3, mask_sr = 2\<rparr>])
   \<and> fst (ioExecute_SW_READ (-2) switch_one_pressed True 2
      [\<lparr>eventNumber = 1, mask_sr = 4\<rparr>, \<lparr>eventNumber = 2, mask_sr = 8\<rparr>]) = of_nat 2 + 1
   \<and> fst (ioExecute_SW_READ (-2) switch_one_pressed True 2
      [\<lparr>eventNumber = 5, mask_sr = 4\<rparr>, \<lparr>eventNumber = 2, mask_sr = 8\<rparr>]) = of_nat 2 + 1
   \<and> fst (ioExecute_SW_READ (-2) switch_one_pressed True 2
      [\<lparr>eventNumber = 2, mask_sr = 4\<rparr>, \<lparr>eventNumber = 3, mask_sr = 8\<rparr>]) \<noteq> of_nat 2 + 1"
proof -
  have n: "\<not> switch_one_pressed 2" and y: "switch_one_pressed 1"
    by (simp_all add: switch_one_pressed_def)
  note A = sw_read_amended [of switch_one_pressed 1 "-2" True "[\<lparr>eventNumber = 1, mask_sr = 4\<rparr>]"]
  note B = sw_read_amended [of switch_one_pressed 2 "-2" True
      "[\<lparr>eventNumber = 1, mask_sr = 4\<rparr>, \<lparr>eventNumber = 2, mask_sr = 8\<rparr>]"]
  note C = sw_read_amended [of switch_one_pressed 2 "-2" True
      "[\<lparr>eventNumber = 5, mask_sr = 4\<rparr>, \<lparr>eventNumber = 2, mask_sr = 8\<rparr>]"]
  note D = sw_read_amended [of switch_one_pressed 2 "-2" True
      "[\<lparr>eventNumber = 2, mask_sr = 4\<rparr>, \<lparr>eventNumber = 3, mask_sr = 8\<rparr>]"]
  have a: "ioExecute_SW_READ (-2) switch_one_pressed True 1
      [\<lparr>eventNumber = 1, mask_sr = 4\<rparr>] = (0, [\<lparr>eventNumber = 1, mask_sr = 4\<rparr>])"
    using A y by blast
  have "ioExecute_SW_READ (-2) switch_one_pressed True 2
      [\<lparr>eventNumber = 1, mask_sr = 4\<rparr>, \<lparr>eventNumber = 2, mask_sr = 8\<rparr>] =
        (if [\<lparr>eventNumber = 1, mask_sr = 4\<rparr>, \<lparr>eventNumber = 2, mask_sr = (8::cint)\<rparr>] = [] then 1
         else eventNumber (last [\<lparr>eventNumber = 1, mask_sr = 4\<rparr>, \<lparr>eventNumber = 2, mask_sr = (8::cint)\<rparr>]) + 1,
         [\<lparr>eventNumber = 1, mask_sr = 4\<rparr>, \<lparr>eventNumber = 2, mask_sr = 8\<rparr>] @
         [\<lparr>eventNumber = (if [\<lparr>eventNumber = 1, mask_sr = 4\<rparr>, \<lparr>eventNumber = 2, mask_sr = (8::cint)\<rparr>] = [] then 1
            else eventNumber (last [\<lparr>eventNumber = 1, mask_sr = 4\<rparr>, \<lparr>eventNumber = 2, mask_sr = (8::cint)\<rparr>]) + 1),
           mask_sr = 2\<rparr>])"
    using B n by blast
  then have b: "ioExecute_SW_READ (-2) switch_one_pressed True 2
      [\<lparr>eventNumber = 1, mask_sr = 4\<rparr>, \<lparr>eventNumber = 2, mask_sr = 8\<rparr>] =
        (3, [\<lparr>eventNumber = 1, mask_sr = 4\<rparr>, \<lparr>eventNumber = 2, mask_sr = 8\<rparr>,
             \<lparr>eventNumber = 3, mask_sr = 2\<rparr>])"
    by simp
  have m: "map eventNumber [\<lparr>eventNumber = 1, mask_sr = 4\<rparr>, \<lparr>eventNumber = 2, mask_sr = (8::cint)\<rparr>] =
           map of_nat [1..<Suc (length [\<lparr>eventNumber = 1, mask_sr = 4\<rparr>, \<lparr>eventNumber = 2, mask_sr = (8::cint)\<rparr>])]"
    by (simp add: upt_rec)
  have c: "fst (ioExecute_SW_READ (-2) switch_one_pressed True 2
      [\<lparr>eventNumber = 1, mask_sr = 4\<rparr>, \<lparr>eventNumber = 2, mask_sr = 8\<rparr>]) = of_nat 2 + 1"
    using B n m by simp
  have d: "fst (ioExecute_SW_READ (-2) switch_one_pressed True 2
      [\<lparr>eventNumber = 5, mask_sr = 4\<rparr>, \<lparr>eventNumber = 2, mask_sr = 8\<rparr>]) = of_nat 2 + 1"
    using C n by simp
  have e: "fst (ioExecute_SW_READ (-2) switch_one_pressed True 2
      [\<lparr>eventNumber = 2, mask_sr = 4\<rparr>, \<lparr>eventNumber = 3, mask_sr = 8\<rparr>]) \<noteq> of_nat 2 + 1"
    using D n by simp
  from a b c d e show ?thesis by blast
qed

text \<open>
  Claim C2 as stated fails once a record has been consumed: after three requests have
  been queued and the first one consumed, the queue holds two records, and the next
  request is numbered 4, not 3.
\<close>

theorem sw_read_seqno_counterexample:
  "getEvent switch_one_pressed
      [\<lparr>eventNumber = 1, mask_sr = 1\<rparr>, \<lparr>eventNumber = 2, mask_sr = 2\<rparr>,
       \<lparr>eventNumber = 3, mask_sr = 4\<rparr>] =
      (1, [\<lparr>eventNumber = 2, mask_sr = 2\<rparr>, \<lparr>eventNumber = 3, mask_sr = 4\<rparr>])
   \<and> fst (ioExecute_SW_READ (-2) no_switch_pressed True 8
      [\<lparr>eventNumber = 2, mask_sr = 2\<rparr>, \<lparr>eventNumber = 3, mask_sr = 4\<rparr>]) = 4
   \<and> fst (ioExecute_SW_READ (-2) no_switch_pressed True 8
      [\<lparr>eventNumber = 2, mask_sr = 2\<rparr>, \<lparr>eventNumber = 3, mask_sr = 4\<rparr>])
       \<noteq> of_nat (length [\<lparr>eventNumber = 2, mask_sr = 2\<rparr>, \<lparr>eventNumber = 3, mask_sr = 4\<rparr>]) + 1"
  by (simp add: getEvent_def getEventPrim_def ioExecute_SW_READ_def storeSwitchRequest_def
      switch_one_pressed_def no_switch_pressed_def)

text \<open>
  Claim C10. When the allocation of a wait record fails, a read-switch request for a
  switch that is not asserted returns the exception result code and leaves the queue as
  it was; so, whenever that code is neither 0 nor the sequence number a new record would
  have received, the result is neither of the two.
\<close>

theorem sw_read_malloc_failure:
  "\<not> sw i1 \<Longrightarrow>
     ioExecute_SW_READ exc sw False i1 q = (exc, q)
     \<and> (exc \<noteq> 0 \<and> exc \<noteq> fst (ioExecute_SW_READ exc sw True i1 q) \<longrightarrow>
          fst (ioExecute_SW_READ exc sw False i1 q) \<noteq> 0
          \<and> fst (ioExecute_SW_READ exc sw False i1 q) \<noteq> fst (ioExecute_SW_READ exc sw True i1 q))"
  by (simp add: ioExecute_SW_READ_def storeSwitchRequest_def)

text \<open>
  An instance, with -2 for the exception code: the request returns -2, which is neither
  0 nor the sequence number 3 that a successful request receives.
\<close>

theorem sw_read_malloc_failure_witness:
  "\<not> no_switch_pressed 8
   \<and> ioExecute_SW_READ (-2) no_switch_pressed False 8
        [\<lparr>eventNumber = 1, mask_sr = 4\<rparr>, \<lparr>eventNumber = 2, mask_sr = 8\<rparr>] =
        (-2, [\<lparr>eventNumber = 1, mask_sr = 4\<rparr>, \<lparr>eventNumber = 2, mask_sr = 8\<rparr>])
   \<and> fst (ioExecute_SW_READ (-2) no_switch_pressed True 8
        [\<lparr>eventNumber = 1, mask_sr = 4\<rparr>, \<lparr>eventNumber = 2, mask_sr = 8\<rparr>]) = 3
   \<and> fst (ioExecute_SW_READ (-2) no_switch_pressed False 8
        [\<lparr>eventNumber = 1, mask_sr = 4\<rparr>, \<lparr>eventNumber = 2, mask_sr = 8\<rparr>]) \<noteq> 0
   \<and> fst (ioExecute_SW_READ (-2) no_switch_pressed False 8
        [\<lparr>eventNumber = 1, mask_sr = 4\<rparr>, \<lparr>eventNumber = 2, mask_sr = 8\<rparr>]) \<noteq> 3"
proof -
  have h: "\<not> no_switch_pressed 8" by (simp add: no_switch_pressed_def)
  have t: "fst (ioExecute_SW_READ (-2) no_switch_pressed True 8
        [\<lparr>eventNumber = 1, mask_sr = 4\<rparr>, \<lparr>eventNumber = 2, mask_sr = 8\<rparr>]) = 3"
    by (simp add: ioExecute_SW_READ_def storeSwitchRequest_def no_switch_pressed_def)
  show ?thesis
    using h t sw_read_malloc_failure [of no_switch_pressed 8 "-2"
        "[\<lparr>eventNumber = 1, mask_sr = 4\<rparr>, \<lparr>eventNumber = 2, mask_sr = 8\<rparr>]"]
    by simp
qed

section \<open>Properties of the wait for an event\<close>

lemma waitForEvent_loop_step:
  "waitForEvent_loop sw clock target q k =
     (if wait_leaves sw clock target q k then Some (k, q)
      else waitForEvent_loop sw clock target q (Suc k))"
  apply (subst waitForEvent_loop.simps)
  using checkForEvents_keep [of "sw k" q]
  by (auto simp: wait_leaves_def split: prod.splits)

lemma waitForEvent_loop_returns:
  "wait_leaves sw clock target q (k + d) \<Longrightarrow> \<forall>j. k \<le> j \<and> j < k + d \<longrightarrow> \<not> wait_leaves sw clock target q j
   \<Longrightarrow> waitForEvent_loop sw clock target q k = Some (k + d, q)"
proof (induction d arbitrary: k)
  case 0
  then show ?case by (subst waitForEvent_loop_step) simp
next
  case (Suc d)
  have "\<not> wait_leaves sw clock target q k" using Suc.prems(2) by simp
  moreover have "waitForEvent_loop sw clock target q (Suc k) = Some (Suc k + d, q)"
    using Suc.prems by (intro Suc.IH) auto
  ultimately show ?case by (subst waitForEvent_loop_step) simp
qed

lemma waitForEvent_loop_Some:
  assumes "waitForEvent_loop sw clock target q k = Some r"
  shows "snd r = q \<and> k \<le> fst r \<and> wait_leaves sw clock target q (fst r) \<and>
         (\<forall>j. k \<le> j \<and> j < fst r \<longrightarrow> \<not> wait_leaves sw clock target q j)"
proof (rule waitForEvent_loop.raw_induct
    [where P = "\<lambda>sw clock target q k r. snd r = q \<and> k \<le> fst r \<and>
         wait_leaves sw clock target q (fst r) \<and>
         (\<forall>j. k \<le> j \<and> j < fst r \<longrightarrow> \<not> wait_leaves sw clock target q j)", OF _ assms])
  fix wl :: "(nat \<Rightarrow> cint \<Rightarrow> bool) \<Rightarrow> (nat \<Rightarrow> jlong) \<Rightarrow> jlong \<Rightarrow> SwitchRequest list \<Rightarrow> nat
     \<Rightarrow> (nat \<times> SwitchRequest list) option"
    and sw clock target q k r
  assume IH: "\<And>sw clock target q k r. wl sw clock target q k = Some r \<Longrightarrow>
      snd r = q \<and> k \<le> fst r \<and> wait_leaves sw clock target q (fst r) \<and>
         (\<forall>j. k \<le> j \<and> j < fst r \<longrightarrow> \<not> wait_leaves sw clock target q j)"
    and step: "(case checkForEvents (sw k) q of
      (res, switchRequests') \<Rightarrow>
        if res \<noteq> 0 then Some (k, switchRequests')
        else if sint target < sint (clock k) then Some (k, switchRequests')
             else wl sw clock target switchRequests' (Suc k)) = Some r"
  show "snd r = q \<and> k \<le> fst r \<and> wait_leaves sw clock target q (fst r) \<and>
         (\<forall>j. k \<le> j \<and> j < fst r \<longrightarrow> \<not> wait_leaves sw clock target q j)"
  proof (cases "wait_leaves sw clock target q k")
    case True
    then show ?thesis using step checkForEvents_keep [of "sw k" q]
      by (auto simp: wait_leaves_def split: prod.splits if_splits)
  next
    case False
    then have "wl sw clock target q (Suc k) = Some r"
      using step checkForEvents_keep [of "sw k" q]
      by (auto simp: wait_leaves_def split: prod.splits if_splits)
    from IH[OF this] False show ?thesis
      by (metis Suc_leD Suc_leI le_neq_implies_less)
  qed
qed


lemma sint_le_maxValue: "sint (x :: jlong) \<le> sint maxValue"
proof -
  have "sint x < 2 ^ (LENGTH(64) - 1)" by (rule sint_lt)
  then show ?thesis by (simp add: maxValue_def)
qed

lemma target_no_overflow:
  assumes "0 < sint (now :: jlong)" "0 \<le> sint (ms :: jlong)"
  shows "(if sint (now + ms) \<le> 0 then maxValue else now + ms) = spec_deadline now ms"
proof -
  let ?S = "sint now + sint ms"
  have b: "sint now < 2 ^ 63" "sint ms < 2 ^ 63"
    using sint_lt [of now] sint_lt [of ms] by simp_all
  have eq: "sint (now + ms) = signed_take_bit 63 ?S"
    by (simp add: sint_word_ariths)
  show ?thesis
  proof (cases "?S < 2 ^ 63")
    case True
    then have "signed_take_bit 63 ?S = ?S"
      using assms by (simp add: signed_take_bit_int_eq_self)
    then show ?thesis using True assms eq by (simp add: spec_deadline_def)
  next
    case False
    have "signed_take_bit 63 ?S = take_bit 64 (?S + 2 ^ 63) - 2 ^ 63"
      by (simp add: signed_take_bit_eq_take_bit_shift)
    also have "take_bit 64 (?S + 2 ^ 63) = take_bit 64 (?S + 2 ^ 63 - 2 ^ 64)"
      by (metis diff_zero take_bit_diff take_bit_of_0 take_bit_of_exp mask_eq_exp_minus_1 take_bit_minus_one_eq_mask take_bit_int_def diff_self mod_self minus_mod_self2)
    also have "\<dots> = ?S + 2 ^ 63 - 2 ^ 64"
      using False b by (simp add: take_bit_int_eq_self)
    finally have "sint (now + ms) < 0" using b eq by simp
    then show ?thesis using False by (simp add: spec_deadline_def)
  qed
qed



text \<open>
  What the wait-for-event operation does, for every request. Its deadline is the wrapped
  64-bit sum of the current time and the requested milliseconds (the two 32-bit
  arguments combined) unless the guard \<^verbatim>\<open>target <= 0\<close> replaces it by the maximum
  value; for a positive clock and a non-negative request the guard fires exactly when
  the sum overflows, so the deadline is the one the specification words. The operation
  leaves its loop at the first pass on which the non-consuming event check succeeds or
  the clock exceeds the deadline, and returns 0 with the request list unchanged; when it
  returns after a pass without an event, the clock has passed the deadline; when no pass
  meets the condition it never returns.
\<close>

theorem waitForEvent_behaviour:
  "waitForEvent_target now i1 i2 =
      (if sint (now + millisecondsToWait i1 i2) \<le> 0 then maxValue
       else now + millisecondsToWait i1 i2)
   \<and> (0 < sint now \<and> 0 \<le> sint (millisecondsToWait i1 i2) \<longrightarrow>
        waitForEvent_target now i1 i2 = spec_deadline now (millisecondsToWait i1 i2))
   \<and> (wait_leaves sw clock (waitForEvent_target now i1 i2) q n \<and>
        (\<forall>j<n. \<not> wait_leaves sw clock (waitForEvent_target now i1 i2) q j) \<longrightarrow>
        ioExecute_GLOBAL_WAITFOREVENT sw now clock i1 i2 q = Some (0, n, q))
   \<and> (ioExecute_GLOBAL_WAITFOREVENT sw now clock i1 i2 q = Some (res, n, q') \<longrightarrow>
        res = 0 \<and> q' = q \<and> wait_leaves sw clock (waitForEvent_target now i1 i2) q n \<and>
        (\<forall>j<n. \<not> wait_leaves sw clock (waitForEvent_target now i1 i2) q j) \<and>
        (fst (checkForEvents (sw n) q) = 0 \<longrightarrow>
           sint (waitForEvent_target now i1 i2) < sint (clock n)))
   \<and> ((\<forall>k. \<not> wait_leaves sw clock (waitForEvent_target now i1 i2) q k) \<longrightarrow>
        ioExecute_GLOBAL_WAITFOREVENT sw now clock i1 i2 q = None)"
proof -
  let ?T = "waitForEvent_target now i1 i2"
  have c1: "?T = (if sint (now + millisecondsToWait i1 i2) \<le> 0 then maxValue
       else now + millisecondsToWait i1 i2)"
    by (simp add: waitForEvent_target_def)
  have c2: "0 < sint now \<and> 0 \<le> sint (millisecondsToWait i1 i2) \<longrightarrow>
        ?T = spec_deadline now (millisecondsToWait i1 i2)"
    using target_no_overflow [of now "millisecondsToWait i1 i2"]
    by (simp add: waitForEvent_target_def)
  have c3: "wait_leaves sw clock ?T q n \<and> (\<forall>j<n. \<not> wait_leaves sw clock ?T q j) \<longrightarrow>
        ioExecute_GLOBAL_WAITFOREVENT sw now clock i1 i2 q = Some (0, n, q)"
  proof
    assume a: "wait_leaves sw clock ?T q n \<and> (\<forall>j<n. \<not> wait_leaves sw clock ?T q j)"
    have "waitForEvent_loop sw clock ?T q 0 = Some (0 + n, q)"
      using a by (intro waitForEvent_loop_returns) auto
    then show "ioExecute_GLOBAL_WAITFOREVENT sw now clock i1 i2 q = Some (0, n, q)"
      by (simp add: ioExecute_GLOBAL_WAITFOREVENT_def)
  qed
  have c4: "ioExecute_GLOBAL_WAITFOREVENT sw now clock i1 i2 q = Some (res, n, q') \<longrightarrow>
        res = 0 \<and> q' = q \<and> wait_leaves sw clock ?T q n \<and>
        (\<forall>j<n. \<not> wait_leaves sw clock ?T q j) \<and>
        (fst (checkForEvents (sw n) q) = 0 \<longrightarrow> sint ?T < sint (clock n))"
  proof
    assume a: "ioExecute_GLOBAL_WAITFOREVENT sw now clock i1 i2 q = Some (res, n, q')"
    then have l: "waitForEvent_loop sw clock ?T q 0 = Some (n, q')" and r: "res = 0"
      by (auto simp: ioExecute_GLOBAL_WAITFOREVENT_def split: option.splits)
    from waitForEvent_loop_Some [OF l] r
    show "res = 0 \<and> q' = q \<and> wait_leaves sw clock ?T q n \<and>
        (\<forall>j<n. \<not> wait_leaves sw clock ?T q j) \<and>
        (fst (checkForEvents (sw n) q) = 0 \<longrightarrow> sint ?T < sint (clock n))"
      by (auto simp: wait_leaves_def)
  qed
  have c5: "(\<forall>k. \<not> wait_leaves sw clock ?T q k) \<longrightarrow>
        ioExecute_GLOBAL_WAITFOREVENT sw now clock i1 i2 q = None"
  proof
    assume a: "\<forall>k. \<not> wait_leaves sw clock ?T q k"
    have "waitForEvent_loop sw clock ?T q 0 = None"
    proof (cases "waitForEvent_loop sw clock ?T q 0")
      case (Some r)
      from waitForEvent_loop_Some [OF this] a show ?thesis by blast
    qed simp
    then show "ioExecute_GLOBAL_WAITFOREVENT sw now clock i1 i2 q = None"
      by (simp add: ioExecute_GLOBAL_WAITFOREVENT_def)
  qed
  show ?thesis
    by (rule conjI [OF c1 conjI [OF c2 conjI [OF c3 conjI [OF c4 c5]]]])
qed

lemma wait_leaves_at_6: "wait_leaves never_pressed (ticking_clock 1000) (waitForEvent_target 1000 0 5)
         [\<lparr>eventNumber = 1, mask_sr = 1\<rparr>] 6"
  unfolding wait_leaves_def by code_simp

lemma wait_leaves_before_6: "\<forall>j<6. \<not> wait_leaves never_pressed (ticking_clock 1000) (waitForEvent_target 1000 0 5)
         [\<lparr>eventNumber = 1, mask_sr = 1\<rparr>] j"
  unfolding wait_leaves_def by code_simp

text \<open>
  An instance: with no switch ever pressed, a clock starting at 1000 and a request of 5
  milliseconds, the deadline is 1005 as specified and the wait returns 0 at the pass
  where the clock reads 1006; with a request of -2000 milliseconds no pass meets the
  condition and it never returns.
\<close>

theorem waitForEvent_behaviour_instance:
  "waitForEvent_target 1000 0 5 = spec_deadline 1000 (millisecondsToWait 0 5)
   \<and> ioExecute_GLOBAL_WAITFOREVENT never_pressed 1000 (ticking_clock 1000) 0 5
        [\<lparr>eventNumber = 1, mask_sr = 1\<rparr>] = Some (0, 6, [\<lparr>eventNumber = 1, mask_sr = 1\<rparr>])
   \<and> sint (waitForEvent_target 1000 0 5) < sint (ticking_clock 1000 6)
   \<and> ioExecute_GLOBAL_WAITFOREVENT never_pressed 1000 (ticking_clock 1000) (-1) (-2000) [] = None"
proof -
  have p: "0 < sint (1000 :: jlong) \<and> 0 \<le> sint (millisecondsToWait 0 5)" by code_simp
  have n: "\<forall>k. \<not> wait_leaves never_pressed (ticking_clock 1000) (waitForEvent_target 1000 (-1) (-2000)) [] k"
  proof -
    have "waitForEvent_target 1000 (-1) (-2000) = maxValue" by code_simp
    moreover have "\<And>k. \<not> sint maxValue < sint (ticking_clock 1000 k)"
      using sint_le_maxValue by (simp add: not_less)
    moreover have "fst (checkForEvents (never_pressed k) []) = 0" for k by code_simp
    ultimately show ?thesis by (simp add: wait_leaves_def)
  qed
  have e: "fst (checkForEvents (never_pressed 6) [\<lparr>eventNumber = 1, mask_sr = 1\<rparr>]) = 0"
    by code_simp
  note A = waitForEvent_behaviour [of 1000 0 5 never_pressed "ticking_clock 1000"
        "[\<lparr>eventNumber = 1, mask_sr = 1\<rparr>]" 6 0 "[\<lparr>eventNumber = 1, mask_sr = 1\<rparr>]"]
  note B = waitForEvent_behaviour [of 1000 "-1" "-2000" never_pressed "ticking_clock 1000" "[]"]
  have w1: "waitForEvent_target 1000 0 5 = spec_deadline 1000 (millisecondsToWait 0 5)"
    using A p by blast
  have w2: "ioExecute_GLOBAL_WAITFOREVENT never_pressed 1000 (ticking_clock 1000) 0 5
        [\<lparr>eventNumber = 1, mask_sr = 1\<rparr>] = Some (0, 6, [\<lparr>eventNumber = 1, mask_sr = 1\<rparr>])"
    using A wait_leaves_at_6 wait_leaves_before_6 by blast
  have w3: "sint (waitForEvent_target 1000 0 5) < sint (ticking_clock 1000 6)"
    using A w2 e by blast
  have w4: "ioExecute_GLOBAL_WAITFOREVENT never_pressed 1000 (ticking_clock 1000) (-1) (-2000) [] = None"
    using B n by blast
  show ?thesis
    using w1 w2 w3 w4 by blast
qed

lemma wait_never_leaves:
  "\<not> wait_leaves never_pressed clock maxValue [] k"
proof -
  have "\<not> sint maxValue < sint (clock k)"
    using sint_le_maxValue by (simp add: not_less)
  moreover have "fst (checkForEvents (never_pressed k) []) = 0" by code_simp
  ultimately show ?thesis by (simp add: wait_leaves_def)
qed

lemma wait_never_returns:
  "waitForEvent_loop never_pressed clock maxValue [] 0 = None"
  using waitForEvent_loop_Some [of never_pressed clock maxValue "[]" 0] wait_never_leaves
  by (cases "waitForEvent_loop never_pressed clock maxValue [] 0") auto

text \<open>
  Claim C4, where the code breaks it. The claim's deadline is the current time plus the
  requested milliseconds, replaced by the maximum value only when that sum overflows.
  At time 1000 a request of -2000 milliseconds gives the sum -1000, which does not
  overflow and has already passed at the first pass of the loop; the guard of the code,
  commented \<^verbatim>\<open>overflow detected\<close>, fires all the same, the deadline becomes the
  maximum value and, with no switch pressed, the operation never returns. The same
  request at time 5000 gives the deadline 3000 and returns 0 at the first pass. A request
  of 0 milliseconds at time 0 is replaced by the maximum value too, with no overflow.
\<close>

theorem waitForEvent_negative_request:
  "spec_deadline 1000 (millisecondsToWait (-1) (-2000)) = -1000
   \<and> sint (spec_deadline 1000 (millisecondsToWait (-1) (-2000))) < sint (ticking_clock 1000 0)
   \<and> waitForEvent_target 1000 (-1) (-2000) = maxValue
   \<and> ioExecute_GLOBAL_WAITFOREVENT never_pressed 1000 (ticking_clock 1000) (-1) (-2000) [] = None
   \<and> waitForEvent_target 5000 (-1) (-2000) = 3000
   \<and> spec_deadline 5000 (millisecondsToWait (-1) (-2000)) = 3000
   \<and> ioExecute_GLOBAL_WAITFOREVENT never_pressed 5000 (ticking_clock 5000) (-1) (-2000) [] =
        Some (0, 0, [])
   \<and> spec_deadline 0 (millisecondsToWait 0 0) = 0
   \<and> waitForEvent_target 0 0 0 = maxValue
   \<and> ioExecute_GLOBAL_WAITFOREVENT never_pressed 0 (ticking_clock 0) 0 0 [] = None"
proof -
  have a: "spec_deadline 1000 (millisecondsToWait (-1) (-2000)) = -1000" by code_simp
  have b: "sint (spec_deadline 1000 (millisecondsToWait (-1) (-2000))) < sint (ticking_clock 1000 0)"
    by code_simp
  have c: "waitForEvent_target 1000 (-1) (-2000) = maxValue" by code_simp
  have d: "ioExecute_GLOBAL_WAITFOREVENT never_pressed 1000 (ticking_clock 1000) (-1) (-2000) [] = None"
    using c wait_never_returns [of "ticking_clock 1000"]
    by (simp add: ioExecute_GLOBAL_WAITFOREVENT_def)
  have e: "waitForEvent_target 5000 (-1) (-2000) = 3000" by code_simp
  have f: "spec_deadline 5000 (millisecondsToWait (-1) (-2000)) = 3000" by code_simp
  have "wait_leaves never_pressed (ticking_clock 5000) 3000 [] 0"
    unfolding wait_leaves_def by code_simp
  then have "waitForEvent_loop never_pressed (ticking_clock 5000) 3000 [] 0 = Some (0, [])"
    using waitForEvent_loop_step [of never_pressed "ticking_clock 5000" 3000 "[]" 0] by simp
  then have g: "ioExecute_GLOBAL_WAITFOREVENT never_pressed 5000 (ticking_clock 5000) (-1) (-2000) [] =
        Some (0, 0, [])"
    using e by (simp add: ioExecute_GLOBAL_WAITFOREVENT_def)
  have h: "spec_deadline 0 (millisecondsToWait 0 0) = 0" by code_simp
  have i: "waitForEvent_target 0 0 0 = maxValue" by code_simp
  have j: "ioExecute_GLOBAL_WAITFOREVENT never_pressed 0 (ticking_clock 0) 0 0 [] = None"
    using i wait_never_returns [of "ticking_clock 0"]
    by (simp add: ioExecute_GLOBAL_WAITFOREVENT_def)
  from a b c d e f g h i j show ?thesis by blast
qed

section \<open>Properties of the buffer registry\<close>

lemma freeBuffer_loop_inv:
  "insert_i \<le> i \<Longrightarrow> i \<le> count \<Longrightarrow> count \<le> length bufs \<Longrightarrow>
     take (snd (freeBuffer_loop buffer count bufs i insert_i))
          (fst (freeBuffer_loop buffer count bufs i insert_i)) =
       take insert_i bufs @ filter (\<lambda>x. x \<noteq> buffer) (drop i (take count bufs))
     \<and> snd (freeBuffer_loop buffer count bufs i insert_i) =
         insert_i + length (filter (\<lambda>x. x \<noteq> buffer) (drop i (take count bufs)))"
proof (induction buffer count bufs i insert_i rule: freeBuffer_loop.induct)
  case (1 buffer count bufs i insert_i)
  note step = freeBuffer_loop.simps [of buffer count bufs i insert_i]
  show ?case
  proof (cases "i < count")
    case False
    then show ?thesis using "1.prems" step by simp
  next
    case True
    then have d: "drop i (take count bufs) = bufs ! i # drop (Suc i) (take count bufs)"
      using "1.prems" by (simp add: Cons_nth_drop_Suc [symmetric])
    show ?thesis
    proof (cases "bufs ! i = buffer")
      case eq: True
      have r: "freeBuffer_loop buffer count bufs i insert_i =
               freeBuffer_loop buffer count bufs (i + 1) insert_i"
        using True eq step by simp
      have "take (snd (freeBuffer_loop buffer count bufs (i + 1) insert_i))
          (fst (freeBuffer_loop buffer count bufs (i + 1) insert_i)) =
         take insert_i bufs @ filter (\<lambda>x. x \<noteq> buffer) (drop (i + 1) (take count bufs))
       \<and> snd (freeBuffer_loop buffer count bufs (i + 1) insert_i) =
         insert_i + length (filter (\<lambda>x. x \<noteq> buffer) (drop (i + 1) (take count bufs)))"
        using "1.prems" True by (intro "1.IH"(1) [OF True eq]) simp_all
      then show ?thesis unfolding r using d eq by (elim conjE) simp
    next
      case ne: False
      let ?b = "bufs[insert_i := bufs ! i]"
      have r: "freeBuffer_loop buffer count bufs i insert_i =
               freeBuffer_loop buffer count ?b (i + 1) (insert_i + 1)"
        using True ne step by simp
      have t: "take (insert_i + 1) ?b = take insert_i bufs @ [bufs ! i]"
        using "1.prems" True by (simp add: take_Suc_conv_app_nth)
      have dd: "drop (i + 1) (take count ?b) = drop (Suc i) (take count bufs)"
        using "1.prems" True by (simp add: take_update_swap)
      have "take (snd (freeBuffer_loop buffer count ?b (i + 1) (insert_i + 1)))
          (fst (freeBuffer_loop buffer count ?b (i + 1) (insert_i + 1))) =
         take (insert_i + 1) ?b @ filter (\<lambda>x. x \<noteq> buffer) (drop (i + 1) (take count ?b))
       \<and> snd (freeBuffer_loop buffer count ?b (i + 1) (insert_i + 1)) =
         insert_i + 1 + length (filter (\<lambda>x. x \<noteq> buffer) (drop (i + 1) (take count ?b)))"
        using "1.prems" True by (intro "1.IH"(2) [OF True ne]) simp_all
      then show ?thesis unfolding r t dd using d ne by (elim conjE) simp
    qed
  qed
qed

lemma length_filter_count_list:
  "length (filter (\<lambda>x. x \<noteq> b) xs) + count_list xs b = length xs"
  by (induction xs) auto

lemma freeBuffer_result:
  assumes "BufferCount g \<le> length (Buffers g)"
  shows "freeBuffer b g =
     (if count_list (registered g) b = 1
      then Inr (g\<lparr>Buffers := fst (freeBuffer_loop b (BufferCount g) (Buffers g) 0 0),
                  BufferCount := BufferCount g - 1\<rparr>)
      else Inl (FatalVMError ''buffer not in Buffers exactly once''))"
   and "count_list (registered g) b = 1 \<Longrightarrow>
     take (BufferCount g - 1) (fst (freeBuffer_loop b (BufferCount g) (Buffers g) 0 0)) =
       filter (\<lambda>x. x \<noteq> b) (registered g)"
proof -
  let ?r = "freeBuffer_loop b (BufferCount g) (Buffers g) 0 0"
  have "take (snd ?r) (fst ?r) =
       take 0 (Buffers g) @ filter (\<lambda>x. x \<noteq> b) (drop 0 (take (BufferCount g) (Buffers g)))
     \<and> snd ?r = 0 + length (filter (\<lambda>x. x \<noteq> b) (drop 0 (take (BufferCount g) (Buffers g))))"
    using assms by (intro freeBuffer_loop_inv) simp_all
  then have i: "take (snd ?r) (fst ?r) = filter (\<lambda>x. x \<noteq> b) (registered g)"
    and j: "snd ?r = length (filter (\<lambda>x. x \<noteq> b) (registered g))"
    unfolding registered_def by (elim conjE, simp)+
  have n: "length (registered g) = BufferCount g"
    using assms by (simp add: registered_def)
  from length_filter_count_list [of b "registered g"] j n
  have c: "snd ?r + count_list (registered g) b = BufferCount g" by simp
  show "freeBuffer b g =
     (if count_list (registered g) b = 1
      then Inr (g\<lparr>Buffers := fst ?r, BufferCount := BufferCount g - 1\<rparr>)
      else Inl (FatalVMError ''buffer not in Buffers exactly once''))"
    using c by (auto simp: freeBuffer_def split: prod.splits)
  show "take (BufferCount g - 1) (fst ?r) = filter (\<lambda>x. x \<noteq> b) (registered g)"
    if "count_list (registered g) b = 1"
  proof -
    have "snd ?r = BufferCount g - 1" using that c by simp
    then show ?thesis using i by simp
  qed
qed

text \<open>
  Claim C5. Releasing a buffer that is registered exactly once succeeds and removes
  exactly that entry: the registry afterwards is the old one without the buffer, in the
  old order, and one entry shorter; so allocating a buffer and releasing it again leaves
  the registry as it was. Releasing a buffer that is registered zero times or more than
  once is the fatal error \<^verbatim>\<open>buffer not in Buffers exactly once\<close>.
\<close>

theorem freeBuffer_exactly_once:
  assumes "BufferCount g \<le> length (Buffers g)"
  shows "(count_list (registered g) b = 1 \<longrightarrow>
            (\<exists>g'. freeBuffer b g = Inr g'
                 \<and> registered g' = filter (\<lambda>x. x \<noteq> b) (registered g)
                 \<and> BufferCount g' = BufferCount g - 1))
       \<and> (count_list (registered g) b \<noteq> 1 \<longrightarrow>
            freeBuffer b g = Inl (FatalVMError ''buffer not in Buffers exactly once''))
       \<and> (valloc ((sz + (pageSize - 1)) AND NOT (pageSize - 1)) = b \<and> b \<noteq> 0
            \<and> b \<notin> set (registered g) \<and> BufferCount g < MAX_BUFFERS
            \<and> length (Buffers g) = MAX_BUFFERS \<longrightarrow>
            (\<exists>g1 g2. newBuffer pageSize valloc sz fatalIfFail g = Inr (b, g1)
                 \<and> registered g1 = registered g @ [b]
                 \<and> freeBuffer b g1 = Inr g2
                 \<and> registered g2 = registered g
                 \<and> BufferCount g2 = BufferCount g))"
proof -
  have c1: "count_list (registered g) b = 1 \<longrightarrow>
            (\<exists>g'. freeBuffer b g = Inr g'
                 \<and> registered g' = filter (\<lambda>x. x \<noteq> b) (registered g)
                 \<and> BufferCount g' = BufferCount g - 1)"
    using freeBuffer_result [OF assms, of b] by (simp add: registered_def)
  have c2: "count_list (registered g) b \<noteq> 1 \<longrightarrow>
            freeBuffer b g = Inl (FatalVMError ''buffer not in Buffers exactly once'')"
    using freeBuffer_result(1) [OF assms, of b] by simp
  have c3: "valloc ((sz + (pageSize - 1)) AND NOT (pageSize - 1)) = b \<and> b \<noteq> 0
            \<and> b \<notin> set (registered g) \<and> BufferCount g < MAX_BUFFERS
            \<and> length (Buffers g) = MAX_BUFFERS \<longrightarrow>
            (\<exists>g1 g2. newBuffer pageSize valloc sz fatalIfFail g = Inr (b, g1)
                 \<and> registered g1 = registered g @ [b]
                 \<and> freeBuffer b g1 = Inr g2
                 \<and> registered g2 = registered g
                 \<and> BufferCount g2 = BufferCount g)"
  proof
    assume a: "valloc ((sz + (pageSize - 1)) AND NOT (pageSize - 1)) = b \<and> b \<noteq> 0
            \<and> b \<notin> set (registered g) \<and> BufferCount g < MAX_BUFFERS
            \<and> length (Buffers g) = MAX_BUFFERS"
    let ?g1 = "g\<lparr>Buffers := (Buffers g)[BufferCount g := b], BufferCount := BufferCount g + 1\<rparr>"
    have n: "newBuffer pageSize valloc sz fatalIfFail g = Inr (b, ?g1)"
      using a by (simp add: newBuffer_def Let_def)
    have r1: "registered ?g1 = registered g @ [b]"
      using a by (simp add: registered_def take_Suc_conv_app_nth)
    have w1: "BufferCount ?g1 \<le> length (Buffers ?g1)" using a by simp
    have cnt: "count_list (registered ?g1) b = 1"
      using a r1 by (simp add: count_list_0_iff)
    have f: "filter (\<lambda>x. x \<noteq> b) (registered ?g1) = registered g"
      using a r1 by (auto simp: filter_id_conv)
    from freeBuffer_result [OF w1, of b] cnt f
    have "\<exists>g2. freeBuffer b ?g1 = Inr g2 \<and> registered g2 = registered g
                 \<and> BufferCount g2 = BufferCount g"
      by (simp add: registered_def)
    with n r1 show "\<exists>g1 g2. newBuffer pageSize valloc sz fatalIfFail g = Inr (b, g1)
                 \<and> registered g1 = registered g @ [b]
                 \<and> freeBuffer b g1 = Inr g2
                 \<and> registered g2 = registered g
                 \<and> BufferCount g2 = BufferCount g"
      by blast
  qed
  show ?thesis by (rule conjI [OF c1 conjI [OF c2 c3]])
qed

text \<open>
  An instance, on a registry of three buffers: releasing the second leaves the other
  two; releasing an unknown buffer, or one registered twice, is fatal; allocating a
  fourth buffer and releasing it gives the three buffers back.
\<close>

theorem freeBuffer_exactly_once_witness:
  "(\<exists>g'. freeBuffer 0x2000 three_buffers = Inr g'
        \<and> registered g' = [0x1000, 0x3000] \<and> BufferCount g' = 2)
   \<and> freeBuffer 0x5000 three_buffers = Inl (FatalVMError ''buffer not in Buffers exactly once'')
   \<and> freeBuffer 0x1000 twice_registered = Inl (FatalVMError ''buffer not in Buffers exactly once'')
   \<and> (\<exists>g1 g2. newBuffer 4 valloc_4000 10 True three_buffers = Inr (0x4000, g1)
        \<and> registered g1 = [0x1000, 0x2000, 0x3000, 0x4000]
        \<and> freeBuffer 0x4000 g1 = Inr g2
        \<and> registered g2 = [0x1000, 0x2000, 0x3000] \<and> BufferCount g2 = 3)"
proof -
  have w: "BufferCount three_buffers \<le> length (Buffers three_buffers)"
    "BufferCount twice_registered \<le> length (Buffers twice_registered)"
    by (simp_all add: three_buffers_def twice_registered_def)
  have r: "registered three_buffers = [0x1000, 0x2000, 0x3000]"
    "registered twice_registered = [0x1000, 0x2000, 0x1000]"
    by (simp_all add: three_buffers_def twice_registered_def registered_def)
  note A = freeBuffer_exactly_once [OF w(1), of "0x2000"]
  note B = freeBuffer_exactly_once [OF w(1), of "0x5000"]
  note C = freeBuffer_exactly_once [OF w(2), of "0x1000"]
  note D = freeBuffer_exactly_once [OF w(1), where valloc = valloc_4000 and sz = 10
      and pageSize = 4 and b = "0x4000" and fatalIfFail = True]
  have a: "\<exists>g'. freeBuffer 0x2000 three_buffers = Inr g'
        \<and> registered g' = [0x1000, 0x3000] \<and> BufferCount g' = 2"
    using A by (simp add: r) (simp add: three_buffers_def)
  have b: "freeBuffer 0x5000 three_buffers = Inl (FatalVMError ''buffer not in Buffers exactly once'')"
    using B by (simp add: r)
  have c: "freeBuffer 0x1000 twice_registered = Inl (FatalVMError ''buffer not in Buffers exactly once'')"
    using C by (simp add: r)
  have d: "\<exists>g1 g2. newBuffer 4 valloc_4000 10 True three_buffers = Inr (0x4000, g1)
        \<and> registered g1 = [0x1000, 0x2000, 0x3000, 0x4000]
        \<and> freeBuffer 0x4000 g1 = Inr g2
        \<and> registered g2 = [0x1000, 0x2000, 0x3000] \<and> BufferCount g2 = 3"
    using D by (simp add: r valloc_4000_def MAX_BUFFERS_def) (simp add: three_buffers_def)
  from a b c d show ?thesis by blast
qed

section \<open>Properties of the copy-bytes operation\<close>

text \<open>
  Claim C7, as amended. A copy-bytes operation that its caller flags as having an NVM
  destination (request argument \<open>i4\<close> equal to 1) does exactly this, in this order: it
  lifts the protection of the NVM region, moves the bytes, runs the post-write check,
  and protects the NVM region again. A copy-bytes operation with any other value of the
  flag moves the bytes and runs the check, and never calls the protection toggle. In
  both cases the memory afterwards holds the source bytes at the destination and is
  unchanged elsewhere. The flag alone decides: the destination address is not compared
  with the bounds of the NVM region.
\<close>

theorem copybytes_protection_bracket:
  "(i4 = 1 \<longrightarrow>
      cio_trace (cioExecute_INTERNAL_COPYBYTES nvmStart nvmEnd i1 i2 i3 i4 o1 o2 s) =
        cio_trace s @ [Mprotect nvmStart (nvmEnd - nvmStart) False,
                       Memmove (o2 + i3) (o1 + i2) i1,
                       CheckPostWrite (o2 + i3) i1,
                       Mprotect nvmStart (nvmEnd - nvmStart) True])
   \<and> (i4 \<noteq> 1 \<longrightarrow>
      cio_trace (cioExecute_INTERNAL_COPYBYTES nvmStart nvmEnd i1 i2 i3 i4 o1 o2 s) =
        cio_trace s @ [Memmove (o2 + i3) (o1 + i2) i1, CheckPostWrite (o2 + i3) i1]
      \<and> filter is_Mprotect
           (drop (length (cio_trace s))
              (cio_trace (cioExecute_INTERNAL_COPYBYTES nvmStart nvmEnd i1 i2 i3 i4 o1 o2 s))) = [])
   \<and> cio_mem (cioExecute_INTERNAL_COPYBYTES nvmStart nvmEnd i1 i2 i3 i4 o1 o2 s) =
        (\<lambda>a. if a - (o2 + i3) < i1 then cio_mem s (o1 + i2 + (a - (o2 + i3)))
             else cio_mem s a)"
  by (simp add: cioExecute_INTERNAL_COPYBYTES_def toggleMemoryProtection_def memmove_def
      checkPostWrite_def is_Mprotect_def Let_def cong: if_cong)

text \<open>
  An instance, with the NVM region from 0x8000 to 0xA000: eight bytes copied from
  0x5000 to offset 16 of 0x9000 with the flag set, and to offset 16 of 0x1000 with the
  flag clear; the byte 0xAB of the source arrives at the destination.
\<close>

theorem copybytes_protection_bracket_witness:
  "cio_trace (cioExecute_INTERNAL_COPYBYTES 0x8000 0xA000 8 0 16 1 0x5000 0x9000 source_byte_state) =
      [Mprotect 0x8000 0x2000 False, Memmove 0x9010 0x5000 8, CheckPostWrite 0x9010 8,
       Mprotect 0x8000 0x2000 True]
   \<and> cio_trace (cioExecute_INTERNAL_COPYBYTES 0x8000 0xA000 8 0 16 0 0x5000 0x1000 source_byte_state) =
      [Memmove 0x1010 0x5000 8, CheckPostWrite 0x1010 8]
   \<and> filter is_Mprotect
        (cio_trace (cioExecute_INTERNAL_COPYBYTES 0x8000 0xA000 8 0 16 0 0x5000 0x1000
           source_byte_state)) = []
   \<and> cio_mem (cioExecute_INTERNAL_COPYBYTES 0x8000 0xA000 8 0 16 1 0x5000 0x9000
        source_byte_state) 0x9010 = 0xAB
   \<and> cio_mem (cioExecute_INTERNAL_COPYBYTES 0x8000 0xA000 8 0 16 0 0x5000 0x1000
        source_byte_state) 0x1010 = 0xAB"
proof -
  note A = copybytes_protection_bracket [of 1 "0x8000" "0xA000" 8 0 16 "0x5000" "0x9000"
      source_byte_state]
  note B = copybytes_protection_bracket [of 0 "0x8000" "0xA000" 8 0 16 "0x5000" "0x1000"
      source_byte_state]
  have a: "cio_trace (cioExecute_INTERNAL_COPYBYTES 0x8000 0xA000 8 0 16 1 0x5000 0x9000 source_byte_state) =
      [Mprotect 0x8000 0x2000 False, Memmove 0x9010 0x5000 8, CheckPostWrite 0x9010 8,
       Mprotect 0x8000 0x2000 True]"
    using A by (simp add: source_byte_state_def)
  have b: "cio_trace (cioExecute_INTERNAL_COPYBYTES 0x8000 0xA000 8 0 16 0 0x5000 0x1000 source_byte_state) =
      [Memmove 0x1010 0x5000 8, CheckPostWrite 0x1010 8]"
    using B by (simp add: source_byte_state_def)
  have c: "filter is_Mprotect
        (cio_trace (cioExecute_INTERNAL_COPYBYTES 0x8000 0xA000 8 0 16 0 0x5000 0x1000
           source_byte_state)) = []"
    unfolding b by (simp add: is_Mprotect_def)
  have d: "cio_mem (cioExecute_INTERNAL_COPYBYTES 0x8000 0xA000 8 0 16 1 0x5000 0x9000
        source_byte_state) 0x9010 = 0xAB"
    using A by (simp add: source_byte_state_def)
  have e: "cio_mem (cioExecute_INTERNAL_COPYBYTES 0x8000 0xA000 8 0 16 0 0x5000 0x1000
        source_byte_state) 0x1010 = 0xAB"
    using B by (simp add: source_byte_state_def)
  from a b c d e show ?thesis by blast
qed

text \<open>
  Claim C7 as stated fails in both directions, since the code looks at the flag and not
  at the address. With the NVM region from 0x8000 to 0xA000, a copy to 0x9010, inside
  the region, with the flag clear moves the bytes without any protection toggle; a copy
  to 0x1010, outside the region, with the flag set lifts and restores the protection.
\<close>

theorem copybytes_flag_counterexample:
  "in_nvm 0x8000 0xA000 (0x9000 + 16)
   \<and> cio_trace (cioExecute_INTERNAL_COPYBYTES 0x8000 0xA000 8 0 16 0 0x5000 0x9000 empty_cio_state) =
      [Memmove 0x9010 0x5000 8, CheckPostWrite 0x9010 8]
   \<and> filter is_Mprotect
        (cio_trace (cioExecute_INTERNAL_COPYBYTES 0x8000 0xA000 8 0 16 0 0x5000 0x9000
           empty_cio_state)) = []
   \<and> \<not> in_nvm 0x8000 0xA000 (0x1000 + 16)
   \<and> cio_trace (cioExecute_INTERNAL_COPYBYTES 0x8000 0xA000 8 0 16 1 0x5000 0x1000 empty_cio_state) =
      [Mprotect 0x8000 0x2000 False, Memmove 0x1010 0x5000 8, CheckPostWrite 0x1010 8,
       Mprotect 0x8000 0x2000 True]"
  by (simp add: in_nvm_def cioExecute_INTERNAL_COPYBYTES_def toggleMemoryProtection_def
      memmove_def checkPostWrite_def is_Mprotect_def empty_cio_state_def Let_def)

section \<open>Properties of the breakpoint tables\<close>

lemma db_fill_inv:
  "n \<le> length table \<Longrightarrow> n < length ips \<Longrightarrow>
     (case fold (db_regenerate_fill table) [0..<n] (0, ips) of (k, ips') \<Rightarrow>
        length (filter (\<lambda>a. a \<noteq> 0) (take n table)) = k
      \<and> map (\<lambda>a. a + 1) (filter (\<lambda>a. a \<noteq> 0) (take n table)) = take k ips'
      \<and> drop k ips' = drop k ips
      \<and> length ips' = length ips)"
proof (induction n)
  case 0
  then show ?case by simp
next
  case (Suc n)
  obtain k ips' where f: "fold (db_regenerate_fill table) [0..<n] (0, ips) = (k, ips')"
    by (cases "fold (db_regenerate_fill table) [0..<n] (0, ips)")
  from Suc f have ih: "length (filter (\<lambda>a. a \<noteq> 0) (take n table)) = k"
    "map (\<lambda>a. a + 1) (filter (\<lambda>a. a \<noteq> 0) (take n table)) = take k ips'"
    "drop k ips' = drop k ips" "length ips' = length ips"
    by simp_all
  have "length (filter (\<lambda>a. a \<noteq> 0) (take n table)) \<le> length (take n table)"
    by (rule length_filter_le)
  then have kn: "k \<le> n" using ih(1) by simp
  have t: "take (Suc n) table = take n table @ [table ! n]"
    using Suc.prems by (simp add: take_Suc_conv_app_nth)
  have g: "fold (db_regenerate_fill table) [0..<Suc n] (0, ips) =
           db_regenerate_fill table n (k, ips')"
    using f by simp
  show ?case
  proof (cases "table ! n = 0")
    case True
    then have "db_regenerate_fill table n (k, ips') = (k, ips')"
      by (simp add: db_regenerate_fill_def)
    then show ?thesis unfolding g t using True ih by simp
  next
    case False
    then have h: "db_regenerate_fill table n (k, ips') = (Suc k, ips'[k := table ! n + 1])"
      by (simp add: db_regenerate_fill_def)
    have a: "take (Suc k) (ips'[k := table ! n + 1]) = take k ips' @ [table ! n + 1]"
      using kn Suc.prems ih(4) by (simp add: take_Suc_conv_app_nth)
    have "tl (drop k ips') = tl (drop k ips)"
      using ih(3) by simp
    then have "drop (Suc k) ips' = drop (Suc k) ips"
      by (simp only: drop_Suc tl_drop)
    then have b: "drop (Suc k) (ips'[k := table ! n + 1]) = drop (Suc k) ips"
      by simp
    show ?thesis unfolding g t h using False ih a b by simp
  qed
qed

lemma db_zero_fill:
  "j \<le> n \<Longrightarrow> n \<le> length ips \<Longrightarrow>
     fold (\<lambda>i ips. ips[i := 0]) [j..<n] ips = take j ips @ replicate (n - j) (0::Address) @ drop n ips"
proof (induction n)
  case 0
  then show ?case by simp
next
  case (Suc n)
  show ?case
  proof (cases "j = Suc n")
    case True
    then show ?thesis by simp
  next
    case False
    then have jn: "j \<le> n" using Suc.prems by simp
    define front where "front = take j ips @ replicate (n - j) (0::Address)"
    have l: "length front = n"
      using jn Suc.prems by (simp add: front_def)
    have "fold (\<lambda>i ips. ips[i := 0]) [j..<Suc n] ips = (front @ drop n ips)[n := 0]"
      using jn Suc by (simp add: front_def)
    also have "\<dots> = front @ (drop n ips)[0 := 0]"
      using l by (simp add: list_update_append)
    also have "(drop n ips)[0 := 0] = 0 # drop (Suc n) ips"
      using Suc.prems by (simp add: Cons_nth_drop_Suc [symmetric])
    finally show ?thesis using jn
      by (simp add: front_def Suc_diff_le replicate_append_same)
  qed
qed

lemma db_regenerate_current_ips_eq:
  assumes "db_wf s"
  shows "db_regenerate_current_ips s =
     s\<lparr>db_current_ips := deriveFastLookup (db_bp_table s) @ [db_current_ips s ! DB_MAX_BPS]\<rparr>"
proof -
  let ?t = "db_bp_table s" and ?c = "db_current_ips s"
  have lt: "length ?t = DB_MAX_BPS" and lc: "length ?c = DB_MAX_BPS + 1"
    using assms by (simp_all add: db_wf_def)
  obtain k ips' where f: "fold (db_regenerate_fill ?t) [0..<DB_MAX_BPS] (0, ?c) = (k, ips')"
    by (cases "fold (db_regenerate_fill ?t) [0..<DB_MAX_BPS] (0, ?c)")
  from db_fill_inv [of DB_MAX_BPS ?t ?c] f lt lc
  have i: "length (filter (\<lambda>a. a \<noteq> 0) ?t) = k"
    "map (\<lambda>a. a + 1) (filter (\<lambda>a. a \<noteq> 0) ?t) = take k ips'"
    "drop k ips' = drop k ?c" "length ips' = length ?c"
    by simp_all
  have "length (filter (\<lambda>a. a \<noteq> 0) ?t) \<le> length ?t" by (rule length_filter_le)
  then have kn: "k \<le> DB_MAX_BPS" using i(1) lt by simp
  have "drop DB_MAX_BPS ips' = drop (DB_MAX_BPS - k) (drop k ips')"
    using kn by simp
  also have "\<dots> = drop DB_MAX_BPS ?c" using kn i(3) by simp
  also have "\<dots> = [?c ! DB_MAX_BPS]"
    using lc by (simp add: Cons_nth_drop_Suc [symmetric])
  finally have d: "drop DB_MAX_BPS ips' = [?c ! DB_MAX_BPS]" .
  have z: "fold (\<lambda>i ips. ips[i := 0]) [k..<DB_MAX_BPS] ips' =
        take k ips' @ replicate (DB_MAX_BPS - k) 0 @ drop DB_MAX_BPS ips'"
    using kn i(4) lc by (intro db_zero_fill) simp_all
  have "db_regenerate_current_ips s =
      s\<lparr>db_current_ips := take k ips' @ replicate (DB_MAX_BPS - k) 0 @ [?c ! DB_MAX_BPS]\<rparr>"
    using f z d by (simp add: db_regenerate_current_ips_def)
  then show ?thesis
    using i(1,2) by (simp add: deriveFastLookup_def)
qed




lemma deriveFastLookup_length:
  "length table = DB_MAX_BPS \<Longrightarrow> length (deriveFastLookup table) = DB_MAX_BPS"
proof -
  assume a: "length table = DB_MAX_BPS"
  have "length (filter (\<lambda>a. a \<noteq> 0) table) \<le> length table" by (rule length_filter_le)
  then show ?thesis using a by (simp add: deriveFastLookup_def)
qed

lemma db_regenerate_consistent:
  assumes "db_wf s" "db_current_ips s ! DB_MAX_BPS = 0"
  shows "db_consistent (db_regenerate_current_ips s)"
  using assms deriveFastLookup_length [of "db_bp_table s"]
  by (simp add: db_regenerate_current_ips_eq db_consistent_def db_wf_def)

lemma db_regenerate_take:
  assumes "db_wf s"
  shows "take DB_MAX_BPS (db_current_ips (db_regenerate_current_ips s)) =
           deriveFastLookup (db_bp_table s)"
    and "db_bp_table (db_regenerate_current_ips s) = db_bp_table s"
    and "db_bp_set (db_regenerate_current_ips s) = db_bp_set s"
    and "db_wf (db_regenerate_current_ips s)"
    and "db_current_ips (db_regenerate_current_ips s) ! DB_MAX_BPS = db_current_ips s ! DB_MAX_BPS"
  using assms deriveFastLookup_length [of "db_bp_table s"]
  by (simp_all add: db_regenerate_current_ips_eq db_wf_def nth_append)

lemma db_consistent_sentinel:
  "db_consistent s \<Longrightarrow> db_wf s \<and> db_current_ips s ! DB_MAX_BPS = 0"
  using deriveFastLookup_length [of "db_bp_table s"]
  by (simp add: db_consistent_def db_wf_def nth_append)

lemma db_process_break_cmd_Inr:
  assumes "db_process_break_cmd E E0 mem buf s = Inr s'"
  shows "\<exists>s0. s' = db_regenerate_current_ips s0
          \<and> length (db_bp_table s0) = length (db_bp_table s)
          \<and> db_current_ips s0 = db_current_ips s"
  using assms
  by (auto simp: db_process_break_cmd_def Let_def split: if_splits)

lemma db_process_break_cmd_consistent:
  assumes "db_wf s" "db_current_ips s ! DB_MAX_BPS = 0"
    and "db_process_break_cmd E E0 mem buf s = Inr s'"
  shows "db_consistent s'"
proof -
  from db_process_break_cmd_Inr [OF assms(3)] obtain s0 where
    s0: "s' = db_regenerate_current_ips s0" "length (db_bp_table s0) = length (db_bp_table s)"
      "db_current_ips s0 = db_current_ips s"
    by blast
  have "db_wf s0" using assms(1) s0 by (simp add: db_wf_def)
  then show ?thesis using s0 assms(2) by (simp add: db_regenerate_consistent)
qed

lemma db_process_data_cmd_consistent:
  "db_consistent s \<Longrightarrow> db_process_data_cmd buf s = Inr s' \<Longrightarrow> db_consistent s'"
  by (auto simp: db_process_data_cmd_def db_consistent_def db_wf_def Let_def split: if_splits)

lemma db_process_client_commands_consistent:
  "db_consistent s \<Longrightarrow> db_process_client_commands E E0 mem s input = Inr (s', rest) \<Longrightarrow>
     db_consistent s'"
proof (induction input arbitrary: s)
  case Nil
  then show ?case by simp
next
  case (Cons buf input)
  show ?case
  proof (cases "l_cmd buf = CHR ''B''")
    case True
    with Cons.prems obtain s1 where
      b: "db_process_break_cmd E E0 mem buf s = Inr s1"
      and r: "db_process_client_commands E E0 mem s1 input = Inr (s', rest)"
      by (auto split: if_splits sum.splits)
    from db_consistent_sentinel [OF Cons.prems(1)] b
    have "db_consistent s1" by (auto intro: db_process_break_cmd_consistent)
    then show ?thesis using r by (rule Cons.IH)
  next
    case False
    note nb = this
    show ?thesis
    proof (cases "l_cmd buf = CHR ''C''")
      case True
      then show ?thesis using Cons.prems nb by (auto split: if_splits)
    next
      case False
      with Cons.prems nb obtain s1 where
        b: "db_process_data_cmd buf s = Inr s1"
        and r: "db_process_client_commands E E0 mem s1 input = Inr (s', rest)"
        by (auto split: if_splits sum.splits)
      from db_process_data_cmd_consistent [OF Cons.prems(1) b]
      show ?thesis using r by (rule Cons.IH)
    qed
  qed
qed

lemma db_process_client_commands_error:
  "db_process_client_commands E E0 mem s input = Inl e \<Longrightarrow> e = Exit (- 1)"
proof (induction input arbitrary: s)
  case Nil
  then show ?case by simp
next
  case (Cons buf input)
  then show ?case
    by (auto simp: db_process_break_cmd_def db_process_data_cmd_def Let_def
        split: if_splits sum.splits)
qed


lemma db_prepare_consistent:
  assumes "db_wf s" "db_debug_enabled s"
    and "db_prepare E E0 mem s input = Inr (s', rest)"
  shows "db_consistent s'"
proof -
  let ?t = "fold (\<lambda>i t. t[i := 0]) [0..<DB_MAX_BPS] (db_bp_table s)"
  let ?c = "(fold (\<lambda>i t. t[i := 0]) [0..<DB_MAX_BPS] (db_current_ips s))[DB_MAX_BPS := 0]"
  let ?s = "s\<lparr>db_bp_table := ?t, db_current_ips := ?c, db_bp_set := False,
                db_sent := db_sent s @ [Ready]\<rparr>"
  have lt: "length (db_bp_table s) = DB_MAX_BPS"
    and lc: "length (db_current_ips s) = DB_MAX_BPS + 1"
    using assms(1) by (simp_all add: db_wf_def)
  have t: "?t = replicate DB_MAX_BPS 0"
    using lt db_zero_fill [of 0 DB_MAX_BPS "db_bp_table s"] by simp
  have "fold (\<lambda>i t. t[i := 0]) [0..<DB_MAX_BPS] (db_current_ips s) =
          replicate DB_MAX_BPS 0 @ drop DB_MAX_BPS (db_current_ips s)"
    using lc db_zero_fill [of 0 DB_MAX_BPS "db_current_ips s"] by simp
  also have "drop DB_MAX_BPS (db_current_ips s) = [db_current_ips s ! DB_MAX_BPS]"
    using lc by (simp add: Cons_nth_drop_Suc [symmetric])
  finally have c: "?c = replicate DB_MAX_BPS 0 @ [0]"
    by (simp add: list_update_append)
  have "db_consistent ?s"
    by (simp add: db_consistent_def db_wf_def t c deriveFastLookup_def)
  moreover have "db_process_client_commands E E0 mem ?s input = Inr (s', rest)"
    using assms(2,3) by (simp add: db_prepare_def Let_def)
  ultimately show ?thesis by (rule db_process_client_commands_consistent)
qed

lemma db_consistent_sent [simp]:
  "db_consistent (s\<lparr>db_sent := m\<rparr>) = db_consistent s"
  by (simp add: db_consistent_def db_wf_def)

lemma db_checkBreak_scan_safe:
  "db_consistent s \<Longrightarrow> i \<le> DB_MAX_BPS \<Longrightarrow>
     db_checkBreak_scan E E0 mem actual_ip i s input \<noteq> Inl ArrayIndexOutOfBounds
     \<and> (\<forall>s' rest. db_checkBreak_scan E E0 mem actual_ip i s input = Inr (s', rest)
            \<longrightarrow> db_consistent s')"
proof (induction E E0 mem actual_ip i s input rule: db_checkBreak_scan.induct)
  case (1 E E0 mem actual_ip i s input)
  note step = db_checkBreak_scan.simps [of E E0 mem actual_ip i s input]
  have bound: "\<not> DB_MAX_BPS < i" using "1.prems" by simp
  show ?case
  proof (cases "db_current_ips s ! i = 0")
    case True
    then show ?thesis using step bound "1.prems" by simp
  next
    case nz: False
    have "i \<noteq> DB_MAX_BPS"
      using nz db_consistent_sentinel [OF "1.prems"(1)] by auto
    then have si: "Suc i \<le> DB_MAX_BPS" using "1.prems"(2) by simp
    show ?thesis
    proof (cases "db_current_ips s ! i = actual_ip")
      case ne: False
      have "db_checkBreak_scan E E0 mem actual_ip i s input =
            db_checkBreak_scan E E0 mem actual_ip (Suc i) s input"
        using step bound nz ne by simp
      then show ?thesis using "1.IH"(3) [OF bound nz ne "1.prems"(1) si] by simp
    next
      case eq: True
      show ?thesis
      proof (cases "db_find_hit (db_bp_table s) (actual_ip - 1) [0..<DB_MAX_BPS]")
        case None
        have "db_checkBreak_scan E E0 mem actual_ip i s input =
              db_checkBreak_scan E E0 mem actual_ip (Suc i) s input"
          using step bound nz eq None by simp
        then show ?thesis using "1.IH"(1) [OF bound nz eq None "1.prems"(1) si] by simp
      next
        case (Some j)
        let ?s = "s\<lparr>db_sent := db_sent s @ [BpHit j]\<rparr>"
        have cs: "db_consistent ?s"
          using "1.prems"(1) by simp
        show ?thesis
        proof (cases "db_process_client_commands E E0 mem ?s input")
          case (Inl e)
          then have "db_checkBreak_scan E E0 mem actual_ip i s input = Inl (Exit (- 1))"
            using step bound nz eq Some db_process_client_commands_error [OF Inl] by simp
          then show ?thesis by simp
        next
          case (Inr p)
          obtain s1 input1 where p: "p = (s1, input1)" by (cases p)
          have c1: "db_consistent s1"
            using db_process_client_commands_consistent [OF cs] Inr p by simp
          have "db_checkBreak_scan E E0 mem actual_ip i s input =
                db_checkBreak_scan E E0 mem actual_ip (Suc i) s1 input1"
            using step bound nz eq Some Inr p by simp
          then show ?thesis
            using "1.IH"(2) [OF bound nz eq Some Inr _ c1 si] p by simp
        qed
      qed
    qed
  qed
qed


lemma deriveFastLookup_set:
  "set (take (length (filter (\<lambda>a. a \<noteq> 0) table)) (deriveFastLookup table)) =
     (\<lambda>a. a + 1) ` {a \<in> set table. a \<noteq> 0}"
  by (auto simp: deriveFastLookup_def)

text \<open>
  Claim C6. Every SET or CLEAR command leaves the first \<open>DB_MAX_BPS\<close> entries of the
  fast-lookup array equal to the array derived from the table; after initialisation and
  any sequence of commands the whole array is the derived one followed by a zero. The
  derived array holds \<open>addr + 1\<close> for every non-zero entry \<open>addr\<close> of the table,
  packed from index 0 in table order and followed by zeroes only, so nothing of an
  earlier state remains.
\<close>

theorem db_fast_lookup_regenerated:
  "(db_wf s \<and> db_process_break_cmd E E0 mem buf s = Inr s' \<longrightarrow>
      take DB_MAX_BPS (db_current_ips s') = deriveFastLookup (db_bp_table s'))
   \<and> (db_wf s \<and> db_debug_enabled s \<and> db_prepare E E0 mem s input = Inr (s', rest) \<longrightarrow>
      db_current_ips s' = deriveFastLookup (db_bp_table s') @ [0])
   \<and> (db_consistent s \<and> db_process_client_commands E E0 mem s input = Inr (s', rest) \<longrightarrow>
      db_current_ips s' = deriveFastLookup (db_bp_table s') @ [0])
   \<and> deriveFastLookup table =
        map (\<lambda>a. a + 1) (filter (\<lambda>a. a \<noteq> 0) table)
          @ replicate (DB_MAX_BPS - length (filter (\<lambda>a. a \<noteq> 0) table)) 0
   \<and> set (take (length (filter (\<lambda>a. a \<noteq> 0) table)) (deriveFastLookup table)) =
        (\<lambda>a. a + 1) ` {a \<in> set table. a \<noteq> 0}"
proof -
  have c1: "db_wf s \<and> db_process_break_cmd E E0 mem buf s = Inr s' \<longrightarrow>
      take DB_MAX_BPS (db_current_ips s') = deriveFastLookup (db_bp_table s')"
  proof
    assume a: "db_wf s \<and> db_process_break_cmd E E0 mem buf s = Inr s'"
    then obtain s0 where
      s0: "s' = db_regenerate_current_ips s0" "length (db_bp_table s0) = length (db_bp_table s)"
        "db_current_ips s0 = db_current_ips s"
      using db_process_break_cmd_Inr by blast
    have "db_wf s0" using a s0 by (simp add: db_wf_def)
    then show "take DB_MAX_BPS (db_current_ips s') = deriveFastLookup (db_bp_table s')"
      using s0(1) by (simp add: db_regenerate_take)
  qed
  have c2: "db_wf s \<and> db_debug_enabled s \<and> db_prepare E E0 mem s input = Inr (s', rest) \<longrightarrow>
      db_current_ips s' = deriveFastLookup (db_bp_table s') @ [0]"
    using db_prepare_consistent [of s E E0 mem input s' rest]
    by (simp add: db_consistent_def)
  have c3: "db_consistent s \<and> db_process_client_commands E E0 mem s input = Inr (s', rest) \<longrightarrow>
      db_current_ips s' = deriveFastLookup (db_bp_table s') @ [0]"
    using db_process_client_commands_consistent [of s E E0 mem input s' rest]
    by (simp add: db_consistent_def)
  have c4: "deriveFastLookup table =
        map (\<lambda>a. a + 1) (filter (\<lambda>a. a \<noteq> 0) table)
          @ replicate (DB_MAX_BPS - length (filter (\<lambda>a. a \<noteq> 0) table)) 0"
    by (simp add: deriveFastLookup_def)
  show ?thesis
    by (rule conjI [OF c1 conjI [OF c2 conjI [OF c3 conjI [OF c4 deriveFastLookup_set]]]])
qed

lemma sample_session_result:
  "db_prepare 100 101 sample_memory db_initial sample_session = Inr (sample_state, [])"
  by code_simp

lemma sample_wf: "db_wf db_initial \<and> db_debug_enabled db_initial"
  by code_simp

text \<open>
  An instance: breakpoints 0, 3 and 5 are set (the second on an \<open>EXTEND0\<close> prefix)
  and breakpoint 0 is cleared again; the array then holds the two remaining entries.
\<close>

theorem db_fast_lookup_regenerated_witness:
  "db_prepare 100 101 sample_memory db_initial sample_session = Inr (sample_state, [])
   \<and> db_bp_table sample_state = [0, 0, 0, 0x201, 0, 0x300] @ replicate 14 0
   \<and> db_current_ips sample_state = deriveFastLookup (db_bp_table sample_state) @ [0]
   \<and> db_current_ips sample_state = [0x202, 0x301] @ replicate 19 0"
proof -
  have t: "db_bp_table sample_state = [0, 0, 0, 0x201, 0, 0x300] @ replicate 14 0"
    and c: "db_current_ips sample_state = [0x202, 0x301] @ replicate 19 0"
    by (simp_all add: sample_state_def)
  from db_fast_lookup_regenerated [where s = db_initial and E = 100 and ?E0.0 = 101
      and mem = sample_memory and input = sample_session and s' = sample_state and rest = "[]"]
    sample_wf sample_session_result
  have "db_current_ips sample_state = deriveFastLookup (db_bp_table sample_state) @ [0]"
    by blast
  with t c sample_session_result show ?thesis by blast
qed

text \<open>
  Claim C8. A SET command with a breakpoint number in range stores, in that slot, the
  given address advanced by 2 when the byte at the address is \<open>OPC_EXTEND\<close>, by 1
  when it is \<open>OPC_EXTEND0\<close>, and unchanged otherwise; it sets the
  some-breakpoint-active flag and regenerates the fast-lookup array from the new table.
\<close>

theorem db_set_breakpoint:
  assumes "db_wf s" and "0 \<le> sint (l_i1 buf)" and "sint (l_i1 buf) < int DB_MAX_BPS"
    and "l_subcmd buf = CHR ''S''"
  shows "\<exists>s'. db_process_break_cmd OPC_EXTEND OPC_EXTEND0 mem buf s = Inr s'
      \<and> db_bp_table s' = (db_bp_table s)[nat (sint (l_i1 buf)) :=
           (if uint (mem (l_i2 buf)) = OPC_EXTEND then l_i2 buf + 2
            else if uint (mem (l_i2 buf)) = OPC_EXTEND0 then l_i2 buf + 1
            else l_i2 buf)]
      \<and> db_bp_table s' ! nat (sint (l_i1 buf)) =
           (if uint (mem (l_i2 buf)) = OPC_EXTEND then l_i2 buf + 2
            else if uint (mem (l_i2 buf)) = OPC_EXTEND0 then l_i2 buf + 1
            else l_i2 buf)
      \<and> db_bp_set s'
      \<and> take DB_MAX_BPS (db_current_ips s') = deriveFastLookup (db_bp_table s')"
proof -
  let ?a = "if uint (mem (l_i2 buf)) = OPC_EXTEND then l_i2 buf + 2
            else if uint (mem (l_i2 buf)) = OPC_EXTEND0 then l_i2 buf + 1
            else l_i2 buf"
  let ?s0 = "s\<lparr>db_bp_table := (db_bp_table s)[nat (sint (l_i1 buf)) := ?a], db_bp_set := True\<rparr>"
  have r: "db_process_break_cmd OPC_EXTEND OPC_EXTEND0 mem buf s =
           Inr (db_regenerate_current_ips ?s0)"
    using assms(2,3,4) by (simp add: db_process_break_cmd_def Let_def)
  have w: "db_wf ?s0" using assms(1) by (simp add: db_wf_def)
  have i: "nat (sint (l_i1 buf)) < length (db_bp_table s)"
    using assms(1,2,3) by (simp add: db_wf_def)
  show ?thesis
    unfolding r using db_regenerate_take [OF w] i by simp
qed

text \<open>
  An instance: breakpoint 0 set at address 0x100, where the memory holds
  \<open>OPC_EXTEND\<close>, is stored as 0x102.
\<close>

theorem db_set_breakpoint_witness:
  "\<exists>s'. db_process_break_cmd 100 101 sample_memory (break_line CHR ''S'' 0 0x100) db_initial = Inr s'
      \<and> db_bp_table s' ! 0 = 0x102 \<and> db_bp_set s'
      \<and> take DB_MAX_BPS (db_current_ips s') = deriveFastLookup (db_bp_table s')"
proof -
  from db_set_breakpoint [of db_initial "break_line CHR ''S'' 0 0x100" 100 101 sample_memory]
  have "\<exists>s'. db_process_break_cmd 100 101 sample_memory (break_line CHR ''S'' 0 0x100) db_initial = Inr s'
      \<and> db_bp_table s' = (replicate 20 0)[0 := 0x102]
      \<and> db_bp_table s' ! 0 = 0x102 \<and> db_bp_set s'
      \<and> take DB_MAX_BPS (db_current_ips s') = deriveFastLookup (db_bp_table s')"
    by (simp add: db_initial_def db_wf_def break_line_def DB_MAX_BPS_def sample_memory_def)
  then show ?thesis by blast
qed


lemma db_consistent_packed:
  assumes "db_consistent s"
  shows "length (filter (\<lambda>a. a \<noteq> 0) (db_bp_table s)) \<le> DB_MAX_BPS
       \<and> (\<forall>i. length (filter (\<lambda>a. a \<noteq> 0) (db_bp_table s)) \<le> i \<and> i \<le> DB_MAX_BPS
              \<longrightarrow> db_current_ips s ! i = 0)
       \<and> take (length (filter (\<lambda>a. a \<noteq> 0) (db_bp_table s))) (db_current_ips s) =
           map (\<lambda>a. a + 1) (filter (\<lambda>a. a \<noteq> 0) (db_bp_table s))"
proof -
  let ?f = "filter (\<lambda>a. a \<noteq> 0) (db_bp_table s)"
  have lt: "length (db_bp_table s) = DB_MAX_BPS"
    and c: "db_current_ips s = deriveFastLookup (db_bp_table s) @ [0]"
    using assms by (simp_all add: db_consistent_def db_wf_def)
  have "length ?f \<le> length (db_bp_table s)" by (rule length_filter_le)
  then have k: "length ?f \<le> DB_MAX_BPS" using lt by simp
  have e: "db_current_ips s = map (\<lambda>a. a + 1) ?f @ replicate (Suc DB_MAX_BPS - length ?f) 0"
    using c k by (simp add: deriveFastLookup_def replicate_append_same Suc_diff_le)
  have z: "db_current_ips s ! i = 0" if "length ?f \<le> i \<and> i \<le> DB_MAX_BPS" for i
  proof -
    have "i - length ?f < Suc DB_MAX_BPS - length ?f" using that by arith
    then have "replicate (Suc DB_MAX_BPS - length ?f) (0::Address) ! (i - length ?f) = 0"
      by (rule nth_replicate)
    then show ?thesis using that by (simp add: e nth_append)
  qed
  have t: "take (length ?f) (db_current_ips s) = map (\<lambda>a. a + 1) ?f"
    by (simp add: e)
  from k z t show ?thesis by blast
qed

text \<open>
  Claim C9. After initialisation, and after a regeneration of an array whose last entry
  is zero, the fast-lookup array agrees with the table; in such a state the array is zero
  from the index that counts the set breakpoints up to index \<open>DB_MAX_BPS\<close>, with the
  entries of the set breakpoints packed before that index; and the scan of the
  per-instruction breakpoint check, which stops at the first zero it reads, never reads
  beyond index \<open>DB_MAX_BPS\<close> and leaves the array in agreement with the table.
\<close>

theorem db_current_ips_sentinel:
  "(db_wf s \<and> db_debug_enabled s \<and> db_prepare E E0 mem s input = Inr (s1, rest1) \<longrightarrow>
      db_consistent s1)
   \<and> (db_wf s \<and> db_current_ips s ! DB_MAX_BPS = 0 \<longrightarrow>
      db_consistent (db_regenerate_current_ips s))
   \<and> (db_consistent s \<longrightarrow>
      length (filter (\<lambda>a. a \<noteq> 0) (db_bp_table s)) \<le> DB_MAX_BPS
      \<and> (\<forall>i. length (filter (\<lambda>a. a \<noteq> 0) (db_bp_table s)) \<le> i \<and> i \<le> DB_MAX_BPS
              \<longrightarrow> db_current_ips s ! i = 0)
      \<and> take (length (filter (\<lambda>a. a \<noteq> 0) (db_bp_table s))) (db_current_ips s) =
           map (\<lambda>a. a + 1) (filter (\<lambda>a. a \<noteq> 0) (db_bp_table s)))
   \<and> (db_consistent s \<longrightarrow>
      db_checkBreak E E0 mem actual_ip s input \<noteq> Inl ArrayIndexOutOfBounds
      \<and> (\<forall>s2 rest2. db_checkBreak E E0 mem actual_ip s input = Inr (s2, rest2)
            \<longrightarrow> db_consistent s2))"
proof -
  have c1: "db_wf s \<and> db_debug_enabled s \<and> db_prepare E E0 mem s input = Inr (s1, rest1) \<longrightarrow>
      db_consistent s1"
    using db_prepare_consistent [of s E E0 mem input s1 rest1] by blast
  have c2: "db_wf s \<and> db_current_ips s ! DB_MAX_BPS = 0 \<longrightarrow>
      db_consistent (db_regenerate_current_ips s)"
    using db_regenerate_consistent [of s] by blast
  have c3: "db_consistent s \<longrightarrow>
      length (filter (\<lambda>a. a \<noteq> 0) (db_bp_table s)) \<le> DB_MAX_BPS
      \<and> (\<forall>i. length (filter (\<lambda>a. a \<noteq> 0) (db_bp_table s)) \<le> i \<and> i \<le> DB_MAX_BPS
              \<longrightarrow> db_current_ips s ! i = 0)
      \<and> take (length (filter (\<lambda>a. a \<noteq> 0) (db_bp_table s))) (db_current_ips s) =
           map (\<lambda>a. a + 1) (filter (\<lambda>a. a \<noteq> 0) (db_bp_table s))"
    using db_consistent_packed [of s] by blast
  have c4: "db_consistent s \<longrightarrow>
      db_checkBreak E E0 mem actual_ip s input \<noteq> Inl ArrayIndexOutOfBounds
      \<and> (\<forall>s2 rest2. db_checkBreak E E0 mem actual_ip s input = Inr (s2, rest2)
            \<longrightarrow> db_consistent s2)"
  proof
    assume a: "db_consistent s"
    from db_checkBreak_scan_safe [OF a, of 0 E E0 mem actual_ip input]
    show "db_checkBreak E E0 mem actual_ip s input \<noteq> Inl ArrayIndexOutOfBounds
      \<and> (\<forall>s2 rest2. db_checkBreak E E0 mem actual_ip s input = Inr (s2, rest2)
            \<longrightarrow> db_consistent s2)"
      using a by (simp add: db_checkBreak_def)
  qed
  show ?thesis by (rule conjI [OF c1 conjI [OF c2 conjI [OF c3 c4]]])
qed

lemma sample_checkBreak:
  "db_checkBreak 100 101 sample_memory 0x202 sample_state [continue_line] =
     Inr (sample_state\<lparr>db_sent := [Ready, BpHit 3]\<rparr>, [])"
  by code_simp

text \<open>
  An instance: in the state reached by the session above, the check at the address
  after breakpoint 3 reports the hit, runs the command loop and ends at the zero of
  index 2.
\<close>

theorem db_current_ips_sentinel_witness:
  "db_consistent sample_state
   \<and> db_current_ips sample_state ! 2 = 0
   \<and> db_checkBreak 100 101 sample_memory 0x202 sample_state [continue_line] =
       Inr (sample_state\<lparr>db_sent := [Ready, BpHit 3]\<rparr>, [])
   \<and> db_checkBreak 100 101 sample_memory 0x202 sample_state [continue_line]
       \<noteq> Inl ArrayIndexOutOfBounds
   \<and> db_consistent (sample_state\<lparr>db_sent := [Ready, BpHit 3]\<rparr>)"
proof -
  note A = db_current_ips_sentinel [where s = db_initial and E = 100 and ?E0.0 = 101
      and mem = sample_memory and input = sample_session and ?s1.0 = sample_state
      and ?rest1.0 = "[]"]
  note B = db_current_ips_sentinel [where s = sample_state and E = 100 and ?E0.0 = 101
      and mem = sample_memory and input = "[continue_line]" and actual_ip = "0x202"]
  have a: "db_consistent sample_state"
    using A sample_wf sample_session_result by blast
  have n: "length (filter (\<lambda>a. a \<noteq> 0) (db_bp_table sample_state)) = 2"
    by (simp add: sample_state_def)
  have b: "db_current_ips sample_state ! 2 = 0"
  proof -
    have "(2::nat) \<le> DB_MAX_BPS" by (simp add: DB_MAX_BPS_def)
    then show ?thesis using B a n by auto
  qed
  have c: "db_checkBreak 100 101 sample_memory 0x202 sample_state [continue_line]
       \<noteq> Inl ArrayIndexOutOfBounds"
    using B a by blast
  have d: "db_consistent (sample_state\<lparr>db_sent := [Ready, BpHit 3]\<rparr>)"
    using B a sample_checkBreak by blast
  from a b c d sample_checkBreak show ?thesis by blast
qed


section \<open>Properties of the instruction decoder\<close>

lemma of_int_uint_ucast: "(of_int (uint (b :: 8 word)) :: cint) = ucast b"
  by (rule of_int_uint)

lemma case_labels_distinct:
  assumes "distinct (case_labels ops)"
  shows
    "OPC_WIDE_M1 ops \<noteq> OPC_WIDE_0 ops" "OPC_WIDE_M1 ops \<noteq> OPC_WIDE_1 ops"
    "OPC_WIDE_0 ops \<noteq> OPC_WIDE_1 ops" "OPC_WIDE_M1 ops \<noteq> OPC_WIDE_SHORT ops"
    "OPC_WIDE_0 ops \<noteq> OPC_WIDE_SHORT ops" "OPC_WIDE_1 ops \<noteq> OPC_WIDE_SHORT ops"
    "OPC_WIDE_M1 ops \<noteq> OPC_WIDE_INT ops" "OPC_WIDE_0 ops \<noteq> OPC_WIDE_INT ops"
    "OPC_WIDE_1 ops \<noteq> OPC_WIDE_INT ops" "OPC_WIDE_SHORT ops \<noteq> OPC_WIDE_INT ops"
    "OPC_WIDE_M1 ops \<noteq> OPC_ESCAPE ops" "OPC_WIDE_0 ops \<noteq> OPC_ESCAPE ops"
    "OPC_WIDE_1 ops \<noteq> OPC_ESCAPE ops" "OPC_WIDE_SHORT ops \<noteq> OPC_ESCAPE ops"
    "OPC_WIDE_INT ops \<noteq> OPC_ESCAPE ops" "OPC_WIDE_M1 ops \<noteq> OPC_ESCAPE_WIDE_M1 ops"
    "OPC_WIDE_0 ops \<noteq> OPC_ESCAPE_WIDE_M1 ops" "OPC_WIDE_1 ops \<noteq> OPC_ESCAPE_WIDE_M1 ops"
    "OPC_WIDE_SHORT ops \<noteq> OPC_ESCAPE_WIDE_M1 ops" "OPC_WIDE_INT ops \<noteq> OPC_ESCAPE_WIDE_M1 ops"
    "OPC_ESCAPE ops \<noteq> OPC_ESCAPE_WIDE_M1 ops" "OPC_WIDE_M1 ops \<noteq> OPC_ESCAPE_WIDE_0 ops"
    "OPC_WIDE_0 ops \<noteq> OPC_ESCAPE_WIDE_0 ops" "OPC_WIDE_1 ops \<noteq> OPC_ESCAPE_WIDE_0 ops"
    "OPC_WIDE_SHORT ops \<noteq> OPC_ESCAPE_WIDE_0 ops" "OPC_WIDE_INT ops \<noteq> OPC_ESCAPE_WIDE_0 ops"
    "OPC_ESCAPE ops \<noteq> OPC_ESCAPE_WIDE_0 ops" "OPC_ESCAPE_WIDE_M1 ops \<noteq> OPC_ESCAPE_WIDE_0 ops"
    "OPC_WIDE_M1 ops \<noteq> OPC_ESCAPE_WIDE_1 ops" "OPC_WIDE_0 ops \<noteq> OPC_ESCAPE_WIDE_1 ops"
    "OPC_WIDE_1 ops \<noteq> OPC_ESCAPE_WIDE_1 ops" "OPC_WIDE_SHORT ops \<noteq> OPC_ESCAPE_WIDE_1 ops"
    "OPC_WIDE_INT ops \<noteq> OPC_ESCAPE_WIDE_1 ops" "OPC_ESCAPE ops \<noteq> OPC_ESCAPE_WIDE_1 ops"
    "OPC_ESCAPE_WIDE_M1 ops \<noteq> OPC_ESCAPE_WIDE_1 ops" "OPC_ESCAPE_WIDE_0 ops \<noteq> OPC_ESCAPE_WIDE_1 ops"
    "OPC_WIDE_M1 ops \<noteq> OPC_ESCAPE_WIDE_SHORT ops" "OPC_WIDE_0 ops \<noteq> OPC_ESCAPE_WIDE_SHORT ops"
    "OPC_WIDE_1 ops \<noteq> OPC_ESCAPE_WIDE_SHORT ops" "OPC_WIDE_SHORT ops \<noteq> OPC_ESCAPE_WIDE_SHORT ops"
    "OPC_WIDE_INT ops \<noteq> OPC_ESCAPE_WIDE_SHORT ops" "OPC_ESCAPE ops \<noteq> OPC_ESCAPE_WIDE_SHORT ops"
    "OPC_ESCAPE_WIDE_M1 ops \<noteq> OPC_ESCAPE_WIDE_SHORT ops" "OPC_ESCAPE_WIDE_0 ops \<noteq> OPC_ESCAPE_WIDE_SHORT ops"
    "OPC_ESCAPE_WIDE_1 ops \<noteq> OPC_ESCAPE_WIDE_SHORT ops" "OPC_WIDE_M1 ops \<noteq> OPC_ESCAPE_WIDE_INT ops"
    "OPC_WIDE_0 ops \<noteq> OPC_ESCAPE_WIDE_INT ops" "OPC_WIDE_1 ops \<noteq> OPC_ESCAPE_WIDE_INT ops"
    "OPC_WIDE_SHORT ops \<noteq> OPC_ESCAPE_WIDE_INT ops" "OPC_WIDE_INT ops \<noteq> OPC_ESCAPE_WIDE_INT ops"
    "OPC_ESCAPE ops \<noteq> OPC_ESCAPE_WIDE_INT ops" "OPC_ESCAPE_WIDE_M1 ops \<noteq> OPC_ESCAPE_WIDE_INT ops"
    "OPC_ESCAPE_WIDE_0 ops \<noteq> OPC_ESCAPE_WIDE_INT ops" "OPC_ESCAPE_WIDE_1 ops \<noteq> OPC_ESCAPE_WIDE_INT ops"
    "OPC_ESCAPE_WIDE_SHORT ops \<noteq> OPC_ESCAPE_WIDE_INT ops"
  using assms by (simp_all add: case_labels_def)

text \<open>
  Claim C1. Whatever bytes follow, the decoder gives each wide prefix the operand and
  the tag of the prefix grammar. After \<open>WIDE_M1\<close>, \<open>WIDE_0\<close> and \<open>WIDE_1\<close> come the
  opcode byte and one operand byte, and the operand is 0xFFFFFF00 OR-ed with that byte,
  the byte itself, and 0x100 OR-ed with the byte. After \<open>WIDE_SHORT\<close> and \<open>WIDE_INT\<close>
  come 2 or 4 operand bytes, read as a signed value, and then the opcode byte. The
  escape-combined prefixes do the same and add 256 to the opcode. The tag is 1 (an
  \<open>int\<close> operand) in all ten cases. In particular the bytes \<open>WIDE_M1, OPC_X, 0x05\<close>
  decode to opcode \<open>OPC_X\<close> with operand 0xFFFFFF05.
\<close>

theorem decodeInstruction_wide:
  assumes "distinct (case_labels ops)"
  shows
  "(uint (mem ip) = OPC_WIDE_M1 ops \<longrightarrow>
      decodeInstruction ops big_endian floats mem ip =
        (\<lparr>tag = 1, prefix = OPC_WIDE_M1 ops, opcode = uint (mem (ip + 1)),
          operand = operand_i (0xFFFFFF00 OR ucast (mem (ip + 2)))\<rparr>, ip + 3))
   \<and> (uint (mem ip) = OPC_WIDE_0 ops \<longrightarrow>
      decodeInstruction ops big_endian floats mem ip =
        (\<lparr>tag = 1, prefix = OPC_WIDE_0 ops, opcode = uint (mem (ip + 1)),
          operand = operand_i (ucast (mem (ip + 2)))\<rparr>, ip + 3))
   \<and> (uint (mem ip) = OPC_WIDE_1 ops \<longrightarrow>
      decodeInstruction ops big_endian floats mem ip =
        (\<lparr>tag = 1, prefix = OPC_WIDE_1 ops, opcode = uint (mem (ip + 1)),
          operand = operand_i (0x100 OR ucast (mem (ip + 2)))\<rparr>, ip + 3))
   \<and> (uint (mem ip) = OPC_WIDE_SHORT ops \<longrightarrow>
      decodeInstruction ops big_endian floats mem ip =
        (\<lparr>tag = 1, prefix = OPC_WIDE_SHORT ops, opcode = uint (mem (ip + 3)),
          operand = operand_i (scast (bytes_value big_endian [mem (ip + 1), mem (ip + 2)] :: 16 word))\<rparr>, ip + 4))
   \<and> (uint (mem ip) = OPC_WIDE_INT ops \<longrightarrow>
      decodeInstruction ops big_endian floats mem ip =
        (\<lparr>tag = 1, prefix = OPC_WIDE_INT ops, opcode = uint (mem (ip + 5)),
          operand = operand_i (bytes_value big_endian [mem (ip + 1), mem (ip + 2), mem (ip + 3), mem (ip + 4)])\<rparr>, ip + 6))
   \<and> (uint (mem ip) = OPC_ESCAPE_WIDE_M1 ops \<longrightarrow>
      decodeInstruction ops big_endian floats mem ip =
        (\<lparr>tag = 1, prefix = OPC_ESCAPE_WIDE_M1 ops, opcode = uint (mem (ip + 1)) + 256,
          operand = operand_i (0xFFFFFF00 OR ucast (mem (ip + 2)))\<rparr>, ip + 3))
   \<and> (uint (mem ip) = OPC_ESCAPE_WIDE_0 ops \<longrightarrow>
      decodeInstruction ops big_endian floats mem ip =
        (\<lparr>tag = 1, prefix = OPC_ESCAPE_WIDE_0 ops, opcode = uint (mem (ip + 1)) + 256,
          operand = operand_i (ucast (mem (ip + 2)))\<rparr>, ip + 3))
   \<and> (uint (mem ip) = OPC_ESCAPE_WIDE_1 ops \<longrightarrow>
      decodeInstruction ops big_endian floats mem ip =
        (\<lparr>tag = 1, prefix = OPC_ESCAPE_WIDE_1 ops, opcode = uint (mem (ip + 1)) + 256,
          operand = operand_i (0x100 OR ucast (mem (ip + 2)))\<rparr>, ip + 3))
   \<and> (uint (mem ip) = OPC_ESCAPE_WIDE_SHORT ops \<longrightarrow>
      decodeInstruction ops big_endian floats mem ip =
        (\<lparr>tag = 1, prefix = OPC_ESCAPE_WIDE_SHORT ops, opcode = uint (mem (ip + 3)) + 256,
          operand = operand_i (scast (bytes_value big_endian [mem (ip + 1), mem (ip + 2)] :: 16 word))\<rparr>, ip + 4))
   \<and> (uint (mem ip) = OPC_ESCAPE_WIDE_INT ops \<longrightarrow>
      decodeInstruction ops big_endian floats mem ip =
        (\<lparr>tag = 1, prefix = OPC_ESCAPE_WIDE_INT ops, opcode = uint (mem (ip + 5)) + 256,
          operand = operand_i (bytes_value big_endian [mem (ip + 1), mem (ip + 2), mem (ip + 3), mem (ip + 4)])\<rparr>, ip + 6))
   \<and> (uint (mem ip) = OPC_WIDE_M1 ops \<and> uint (mem (ip + 1)) = OPC_X \<and> mem (ip + 2) = 0x05 \<longrightarrow>
      opcode (fst (decodeInstruction ops big_endian floats mem ip)) = OPC_X
      \<and> operand (fst (decodeInstruction ops big_endian floats mem ip)) = operand_i 0xFFFFFF05
      \<and> tag (fst (decodeInstruction ops big_endian floats mem ip)) = 1)"
proof -
  note d = case_labels_distinct [OF assms, THEN not_sym]
  have c0: "(uint (mem ip) = OPC_WIDE_M1 ops \<longrightarrow>
      decodeInstruction ops big_endian floats mem ip =
        (\<lparr>tag = 1, prefix = OPC_WIDE_M1 ops, opcode = uint (mem (ip + 1)),
          operand = operand_i (0xFFFFFF00 OR ucast (mem (ip + 2)))\<rparr>, ip + 3))"
    unfolding decodeInstruction_def fetchUByte_def
    by (rule impI, simp only: prod.case Let_def d if_False if_True refl fetchShort_def fetchInt_def)
       (simp add: ac_simps of_int_uint_ucast)
  have c1: "(uint (mem ip) = OPC_WIDE_0 ops \<longrightarrow>
      decodeInstruction ops big_endian floats mem ip =
        (\<lparr>tag = 1, prefix = OPC_WIDE_0 ops, opcode = uint (mem (ip + 1)),
          operand = operand_i (ucast (mem (ip + 2)))\<rparr>, ip + 3))"
    unfolding decodeInstruction_def fetchUByte_def
    by (rule impI, simp only: prod.case Let_def d if_False if_True refl fetchShort_def fetchInt_def)
       (simp add: ac_simps of_int_uint_ucast)
  have c2: "(uint (mem ip) = OPC_WIDE_1 ops \<longrightarrow>
      decodeInstruction ops big_endian floats mem ip =
        (\<lparr>tag = 1, prefix = OPC_WIDE_1 ops, opcode = uint (mem (ip + 1)),
          operand = operand_i (0x100 OR ucast (mem (ip + 2)))\<rparr>, ip + 3))"
    unfolding decodeInstruction_def fetchUByte_def
    by (rule impI, simp only: prod.case Let_def d if_False if_True refl fetchShort_def fetchInt_def)
       (simp add: ac_simps of_int_uint_ucast)
  have c3: "(uint (mem ip) = OPC_WIDE_SHORT ops \<longrightarrow>
      decodeInstruction ops big_endian floats mem ip =
        (\<lparr>tag = 1, prefix = OPC_WIDE_SHORT ops, opcode = uint (mem (ip + 3)),
          operand = operand_i (scast (bytes_value big_endian [mem (ip + 1), mem (ip + 2)] :: 16 word))\<rparr>, ip + 4))"
    unfolding decodeInstruction_def fetchUByte_def
    by (rule impI, simp only: prod.case Let_def d if_False if_True refl fetchShort_def fetchInt_def)
       (simp add: ac_simps of_int_uint_ucast)
  have c4: "(uint (mem ip) = OPC_WIDE_INT ops \<longrightarrow>
      decodeInstruction ops big_endian floats mem ip =
        (\<lparr>tag = 1, prefix = OPC_WIDE_INT ops, opcode = uint (mem (ip + 5)),
          operand = operand_i (bytes_value big_endian [mem (ip + 1), mem (ip + 2), mem (ip + 3), mem (ip + 4)])\<rparr>, ip + 6))"
    unfolding decodeInstruction_def fetchUByte_def
    by (rule impI, simp only: prod.case Let_def d if_False if_True refl fetchShort_def fetchInt_def)
       (simp add: ac_simps of_int_uint_ucast)
  have c5: "(uint (mem ip) = OPC_ESCAPE_WIDE_M1 ops \<longrightarrow>
      decodeInstruction ops big_endian floats mem ip =
        (\<lparr>tag = 1, prefix = OPC_ESCAPE_WIDE_M1 ops, opcode = uint (mem (ip + 1)) + 256,
          operand = operand_i (0xFFFFFF00 OR ucast (mem (ip + 2)))\<rparr>, ip + 3))"
    unfolding decodeInstruction_def fetchUByte_def
    by (rule impI, simp only: prod.case Let_def d if_False if_True refl fetchShort_def fetchInt_def)
       (simp add: ac_simps of_int_uint_ucast)
  have c6: "(uint (mem ip) = OPC_ESCAPE_WIDE_0 ops \<longrightarrow>
      decodeInstruction ops big_endian floats mem ip =
        (\<lparr>tag = 1, prefix = OPC_ESCAPE_WIDE_0 ops, opcode = uint (mem (ip + 1)) + 256,
          operand = operand_i (ucast (mem (ip + 2)))\<rparr>, ip + 3))"
    unfolding decodeInstruction_def fetchUByte_def
    by (rule impI, simp only: prod.case Let_def d if_False if_True refl fetchShort_def fetchInt_def)
       (simp add: ac_simps of_int_uint_ucast)
  have c7: "(uint (mem ip) = OPC_ESCAPE_WIDE_1 ops \<longrightarrow>
      decodeInstruction ops big_endian floats mem ip =
        (\<lparr>tag = 1, prefix = OPC_ESCAPE_WIDE_1 ops, opcode = uint (mem (ip + 1)) + 256,
          operand = operand_i (0x100 OR ucast (mem (ip + 2)))\<rparr>, ip + 3))"
    unfolding decodeInstruction_def fetchUByte_def
    by (rule impI, simp only: prod.case Let_def d if_False if_True refl fetchShort_def fetchInt_def)
       (simp add: ac_simps of_int_uint_ucast)
  have c8: "(uint (mem ip) = OPC_ESCAPE_WIDE_SHORT ops \<longrightarrow>
      decodeInstruction ops big_endian floats mem ip =
        (\<lparr>tag = 1, prefix = OPC_ESCAPE_WIDE_SHORT ops, opcode = uint (mem (ip + 3)) + 256,
          operand = operand_i (scast (bytes_value big_endian [mem (ip + 1), mem (ip + 2)] :: 16 word))\<rparr>, ip + 4))"
    unfolding decodeInstruction_def fetchUByte_def
    by (rule impI, simp only: prod.case Let_def d if_False if_True refl fetchShort_def fetchInt_def)
       (simp add: ac_simps of_int_uint_ucast)
  have c9: "(uint (mem ip) = OPC_ESCAPE_WIDE_INT ops \<longrightarrow>
      decodeInstruction ops big_endian floats mem ip =
        (\<lparr>tag = 1, prefix = OPC_ESCAPE_WIDE_INT ops, opcode = uint (mem (ip + 5)) + 256,
          operand = operand_i (bytes_value big_endian [mem (ip + 1), mem (ip + 2), mem (ip + 3), mem (ip + 4)])\<rparr>, ip + 6))"
    unfolding decodeInstruction_def fetchUByte_def
    by (rule impI, simp only: prod.case Let_def d if_False if_True refl fetchShort_def fetchInt_def)
       (simp add: ac_simps of_int_uint_ucast)
  have ex: "(uint (mem ip) = OPC_WIDE_M1 ops \<and> uint (mem (ip + 1)) = OPC_X \<and> mem (ip + 2) = 0x05 \<longrightarrow>
      opcode (fst (decodeInstruction ops big_endian floats mem ip)) = OPC_X
      \<and> operand (fst (decodeInstruction ops big_endian floats mem ip)) = operand_i 0xFFFFFF05
      \<and> tag (fst (decodeInstruction ops big_endian floats mem ip)) = 1)"
    using c0 by simp
  show ?thesis
    by (rule conjI [OF c0 conjI [OF c1 conjI [OF c2 conjI [OF c3 conjI [OF c4 conjI [OF c5 conjI [OF c6 conjI [OF c7 conjI [OF c8 conjI [OF c9 ex]]]]]]]]]])
qed

text \<open>
  An instance, in the sample opcode table: the bytes \<open>WIDE_M1, 0x21, 0x05\<close> decode
  to opcode 0x21 with operand 0xFFFFFF05, and the bytes
  \<open>ESCAPE_WIDE_SHORT, 0xFF, 0xFE, 0x21\<close>, read in big-endian order, decode to opcode
  0x121 with operand -2.
\<close>

theorem decodeInstruction_wide_witness:
  "distinct (case_labels sample_opcodes)
   \<and> decodeInstruction sample_opcodes True True wide_m1_memory 0x40 =
       (\<lparr>tag = 1, prefix = 240, opcode = 0x21, operand = operand_i 0xFFFFFF05\<rparr>, 0x43)
   \<and> decodeInstruction sample_opcodes True True wide_short_memory 0x40 =
       (\<lparr>tag = 1, prefix = 249, opcode = 0x121, operand = operand_i (- 2)\<rparr>, 0x44)"
proof -
  have d: "distinct (case_labels sample_opcodes)"
    by (simp add: case_labels_def sample_opcodes_def)
  have e: "(scast (bytes_value True [0xFF, 0xFE] :: 16 word) :: cint) = - 2"
    by code_simp
  from decodeInstruction_wide [OF d, of wide_m1_memory "0x40" True True]
  have a: "decodeInstruction sample_opcodes True True wide_m1_memory 0x40 =
       (\<lparr>tag = 1, prefix = 240, opcode = 0x21, operand = operand_i 0xFFFFFF05\<rparr>, 0x43)"
    by (simp add: wide_m1_memory_def sample_opcodes_def)
  from decodeInstruction_wide [OF d, of wide_short_memory "0x40" True True]
  have b: "decodeInstruction sample_opcodes True True wide_short_memory 0x40 =
       (\<lparr>tag = 1, prefix = 249, opcode = 0x121, operand = operand_i (- 2)\<rparr>, 0x44)"
    by (simp add: wide_short_memory_def sample_opcodes_def e)
  from d a b show ?thesis by blast
qed


end
